theory Spec2Isabelle
  imports Complex_Main "HOL-Library.Char_ord" "HOL-Library.List_Lexorder"
    "HOL-Library.Product_Lexorder"
begin

section \<open>Tables of the data library\<close>

text \<open>
  \<^verbatim>\<open>pandas_questions.py\<close> is a pipeline of table operations of the pandas library. The
  tables are modelled column by column, as the library stores them: a table is an index
  (the row labels, with an optional name) and a list of labelled columns of equal length.

  A cell is a missing value (\<open>NaN\<close>), an integer, a string, a finite float, an infinite
  float (\<open>InfC True\<close> is \<open>+inf\<close>) or an opaque object shown by its text (a geometry).
  Idealisations: integers are unbounded (the 64-bit range of the library is not modelled),
  finite floats are exact rationals (no rounding), and a cell does not record whether an
  integral number is stored as an integer or as a float.
\<close>

datatype cell = NaN | IntC int | StrC string | FloatC rat | InfC bool | ObjC string

type_synonym series = "cell list"

record frame =
  index_name :: "string option"
  index :: series
  columns :: "(string \<times> series) list"

text \<open>
  The exceptions the operations raise. \<open>Unsupported\<close> is not an exception of the library:
  it marks an input outside the modelled fragment (printing a float, arithmetic on text, a
  join key that is an index level), where the library itself would carry on.
\<close>

datatype error = KeyError | ValueError | TypeError | MergeError | Unsupported

fun traverse :: "('a \<Rightarrow> error + 'b) \<Rightarrow> 'a list \<Rightarrow> error + 'b list" where
  "traverse f [] = Inr []"
| "traverse f (x # xs) =
     (case f x of
        Inl e \<Rightarrow> Inl e
      | Inr y \<Rightarrow> (case traverse f xs of Inl e \<Rightarrow> Inl e | Inr ys \<Rightarrow> Inr (y # ys)))"

subsection \<open>Strings: \<^verbatim>\<open>astype(str)\<close>, \<^verbatim>\<open>str.zfill\<close>, \<^verbatim>\<open>str.contains\<close>\<close>

definition digit :: "nat \<Rightarrow> char" where
  "digit d = ''0123456789'' ! (d mod 10)"

function str_of_nat :: "nat \<Rightarrow> string" where
  "str_of_nat n = (if n < 10 then [digit n] else str_of_nat (n div 10) @ [digit n])"
  by pat_completeness auto
termination
  by (relation "measure id") auto

declare str_of_nat.simps [simp del]

text \<open>\<^verbatim>\<open>str(x)\<close> of one cell.\<close>

fun str_cell :: "cell \<Rightarrow> error + string" where
  "str_cell NaN = Inr ''nan''"
| "str_cell (IntC i) =
     Inr (if i < 0 then CHR ''-'' # str_of_nat (nat (- i)) else str_of_nat (nat i))"
| "str_cell (StrC s) = Inr s"
| "str_cell (FloatC q) = Inl Unsupported"
| "str_cell (InfC b) = Inr (if b then ''inf'' else ''-inf'')"
| "str_cell (ObjC s) = Inr s"

definition astype_str :: "series \<Rightarrow> error + series" where
  "astype_str c = traverse (\<lambda>x. case str_cell x of Inl e \<Rightarrow> Inl e | Inr s \<Rightarrow> Inr (StrC s)) c"

text \<open>\<^verbatim>\<open>str.zfill(width)\<close>: zeros on the left, after a leading sign if there is one.\<close>

definition zfill :: "nat \<Rightarrow> string \<Rightarrow> string" where
  "zfill width s =
     (if width \<le> length s then s
      else (case s of
              [] \<Rightarrow> replicate width CHR ''0''
            | c # rest \<Rightarrow>
                if c = CHR ''+'' \<or> c = CHR ''-''
                then c # replicate (width - length s) CHR ''0'' @ rest
                else replicate (width - length s) CHR ''0'' @ s))"

definition str_zfill :: "nat \<Rightarrow> series \<Rightarrow> series" where
  "str_zfill width c = map (\<lambda>x. case x of StrC s \<Rightarrow> StrC (zfill width s) | _ \<Rightarrow> NaN) c"

text \<open>
  \<^verbatim>\<open>str.contains(pat)\<close> for a pattern without regular-expression operators (here
  \<^verbatim>\<open>"Z"\<close>): the pattern occurs in the string. A cell that is not a string gives a
  missing value.
\<close>

fun contains :: "string \<Rightarrow> string \<Rightarrow> bool" where
  "contains pat [] = (pat = [])"
| "contains pat (c # cs) = (take (length pat) (c # cs) = pat \<or> contains pat cs)"

definition str_contains :: "string \<Rightarrow> series \<Rightarrow> bool option list" where
  "str_contains pat c =
     map (\<lambda>x. case x of StrC s \<Rightarrow> Some (contains pat s) | _ \<Rightarrow> None) c"

text \<open>\<^verbatim>\<open>~mask\<close>: raises on a missing value.\<close>

definition invert :: "bool option list \<Rightarrow> error + bool list" where
  "invert m = traverse (\<lambda>b. case b of None \<Rightarrow> Inl TypeError | Some v \<Rightarrow> Inr (\<not> v)) m"

subsection \<open>Columns of a table\<close>

definition labels :: "frame \<Rightarrow> string list" where
  "labels f = map fst (columns f)"

definition nrows :: "frame \<Rightarrow> nat" where
  "nrows f = length (index f)"

definition wf_frame :: "frame \<Rightarrow> bool" where
  "wf_frame f = list_all (\<lambda>(l, c). length c = length (index f)) (columns f)"

definition range_index :: "nat \<Rightarrow> series" where
  "range_index n = map (\<lambda>i. IntC (int i)) [0..<n]"

text \<open>\<^verbatim>\<open>df[label]\<close>\<close>

definition getitem :: "frame \<Rightarrow> string \<Rightarrow> error + series" where
  "getitem f l = (case map_of (columns f) l of None \<Rightarrow> Inl KeyError | Some c \<Rightarrow> Inr c)"

text \<open>\<^verbatim>\<open>df[label] = values\<close>: replaces the column, or appends it when the label is new.\<close>

definition setitem :: "frame \<Rightarrow> string \<Rightarrow> series \<Rightarrow> frame" where
  "setitem f l v =
     f\<lparr>columns :=
         (if l \<in> set (labels f)
          then map (\<lambda>(l', c). if l' = l then (l', v) else (l', c)) (columns f)
          else columns f @ [(l, v)])\<rparr>"

text \<open>\<^verbatim>\<open>df.rename(columns=m)\<close>: labels that \<open>m\<close> does not mention stay.\<close>

definition rename_columns :: "frame \<Rightarrow> (string \<times> string) list \<Rightarrow> frame" where
  "rename_columns f m =
     f\<lparr>columns := map (\<lambda>(l, c). (case map_of m l of None \<Rightarrow> l | Some l' \<Rightarrow> l', c)) (columns f)\<rparr>"

text \<open>\<^verbatim>\<open>df[[l1, ..., ln]]\<close>: the columns under each label, in the order asked.\<close>

definition select_columns :: "frame \<Rightarrow> string list \<Rightarrow> error + frame" where
  "select_columns f ls =
     (if list_ex (\<lambda>l. l \<notin> set (labels f)) ls then Inl KeyError
      else Inr (f\<lparr>columns := concat (map (\<lambda>l. filter (\<lambda>(l', c). l' = l) (columns f)) ls)\<rparr>))"

text \<open>\<^verbatim>\<open>df.drop(columns=ls)\<close>\<close>

definition drop_columns :: "frame \<Rightarrow> string list \<Rightarrow> error + frame" where
  "drop_columns f ls =
     (if list_ex (\<lambda>l. l \<notin> set (labels f)) ls then Inl KeyError
      else Inr (f\<lparr>columns := filter (\<lambda>(l, c). l \<notin> set ls) (columns f)\<rparr>))"

text \<open>\<^verbatim>\<open>df[mask]\<close>: the rows where the mask is true, with their index labels.\<close>

definition keep :: "bool list \<Rightarrow> 'a list \<Rightarrow> 'a list" where
  "keep msk xs = map snd (filter fst (zip msk xs))"

definition filter_rows :: "frame \<Rightarrow> bool list \<Rightarrow> frame" where
  "filter_rows f msk =
     f\<lparr>index := keep msk (index f), columns := map (\<lambda>(l, c). (l, keep msk c)) (columns f)\<rparr>"

subsection \<open>\<^verbatim>\<open>merge(..., how="left")\<close>\<close>

text \<open>
  The key of a join or of a group-by is a column, under a label that is unique in the table.
\<close>

definition key_values :: "frame \<Rightarrow> string \<Rightarrow> error + series" where
  "key_values f k =
     (if index_name f = Some k then Inl Unsupported
      else (case filter (\<lambda>(l, c). l = k) (columns f) of
              [] \<Rightarrow> Inl KeyError
            | [(l, c)] \<Rightarrow> Inr c
            | _ \<Rightarrow> Inl ValueError))"

text \<open>
  The rows of a left join: every left row in order, once for each right row with an equal
  key (in the order of the right table), or once with no partner. Missing keys are equal to
  each other, as in the library.
\<close>

definition matches :: "series \<Rightarrow> cell \<Rightarrow> nat list" where
  "matches rk v = filter (\<lambda>j. rk ! j = v) [0..<length rk]"

definition left_indexer :: "series \<Rightarrow> series \<Rightarrow> (nat \<times> nat option) list" where
  "left_indexer lk rk =
     concat (map (\<lambda>i. case matches rk (lk ! i) of
                         [] \<Rightarrow> [(i, None)]
                       | j # js \<Rightarrow> map (\<lambda>j'. (i, Some j')) (j # js))
                 [0..<length lk])"

definition take_left :: "(nat \<times> nat option) list \<Rightarrow> series \<Rightarrow> series" where
  "take_left idx c = map (\<lambda>(i, j). c ! i) idx"

definition take_right :: "(nat \<times> nat option) list \<Rightarrow> series \<Rightarrow> series" where
  "take_right idx c = map (\<lambda>(i, j). case j of None \<Rightarrow> NaN | Some j' \<Rightarrow> c ! j') idx"

text \<open>
  A label is a duplicate made by a suffix when it repeats an earlier label of the renamed
  list while the label it had before did not.
\<close>

definition suffix_dups :: "string list \<Rightarrow> string list \<Rightarrow> bool" where
  "suffix_dups old new =
     list_ex (\<lambda>i. new ! i \<in> set (take i new) \<and> old ! i \<notin> set (take i old)) [0..<length new]"

text \<open>
  \<^verbatim>\<open>left.merge(right, left_on=k1, right_on=k2, how="left")\<close>, and
  \<^verbatim>\<open>on=k\<close> when both keys have one label: then the key appears once, with the left
  values. Labels that both tables carry get the suffixes \<^verbatim>\<open>_x\<close> and \<^verbatim>\<open>_y\<close>.
  The result has a fresh positional index.
\<close>

definition merge_left :: "frame \<Rightarrow> frame \<Rightarrow> string \<Rightarrow> string \<Rightarrow> error + frame" where
  "merge_left left right left_on right_on =
     (case key_values left left_on of
        Inl e \<Rightarrow> Inl e
      | Inr lk \<Rightarrow>
     (case key_values right right_on of
        Inl e \<Rightarrow> Inl e
      | Inr rk \<Rightarrow>
          let rcols = (if left_on = right_on
                       then filter (\<lambda>(l, c). l \<noteq> right_on) (columns right)
                       else columns right);
              overlap = filter (\<lambda>l. l \<in> set (map fst rcols)) (labels left);
              llabels = map (\<lambda>l. if l \<in> set overlap then l @ ''_x'' else l) (labels left);
              rlabels = map (\<lambda>l. if l \<in> set overlap then l @ ''_y'' else l) (map fst rcols);
              idx = left_indexer lk rk
          in if suffix_dups (labels left) llabels \<or> suffix_dups (map fst rcols) rlabels
             then Inl MergeError
             else Inr \<lparr>index_name = None, index = range_index (length idx),
                       columns = zip llabels (map (\<lambda>(l, c). take_left idx c) (columns left)) @
                                 zip rlabels (map (\<lambda>(l, c). take_right idx c) rcols)\<rparr>))"

subsection \<open>\<^verbatim>\<open>groupby(key).agg(...)\<close> and \<^verbatim>\<open>reset_index\<close>\<close>

datatype aggfunc = First | Sum

definition group_values :: "cell \<Rightarrow> series \<Rightarrow> series \<Rightarrow> series" where
  "group_values k ks c = map snd (filter (\<lambda>(k', v). k' = k) (zip ks c))"

text \<open>\<^verbatim>\<open>"first"\<close>: the first value of the group that is not missing.\<close>

definition agg_first :: "series \<Rightarrow> cell" where
  "agg_first vs = (case filter (\<lambda>v. v \<noteq> NaN) vs of [] \<Rightarrow> NaN | v # _ \<Rightarrow> v)"

fun int_of :: "cell \<Rightarrow> int" where
  "int_of (IntC i) = i"
| "int_of _ = 0"

fun is_count :: "cell \<Rightarrow> bool" where
  "is_count (IntC i) = True"
| "is_count NaN = True"
| "is_count _ = False"

text \<open>\<^verbatim>\<open>"sum"\<close> of a group of integers: missing values are skipped.\<close>

definition agg_sum :: "series \<Rightarrow> error + cell" where
  "agg_sum vs = (if list_all is_count vs then Inr (IntC (sum_list (map int_of vs)))
                 else Inl Unsupported)"

fun aggregate :: "aggfunc \<Rightarrow> series \<Rightarrow> error + cell" where
  "aggregate First vs = Inr (agg_first vs)"
| "aggregate Sum vs = agg_sum vs"

text \<open>
  The groups are the distinct keys that are not missing, in sorted order: numbers by value,
  strings by code point, numbers before strings.
\<close>

fun cell_key :: "cell \<Rightarrow> nat \<times> rat \<times> string" where
  "cell_key NaN = (0, 0, [])"
| "cell_key (IntC i) = (2, of_int i, [])"
| "cell_key (FloatC q) = (2, q, [])"
| "cell_key (InfC b) = (if b then 3 else 1, 0, [])"
| "cell_key (StrC s) = (4, 0, s)"
| "cell_key (ObjC s) = (5, 0, s)"

definition group_keys :: "series \<Rightarrow> series" where
  "group_keys ks = sort_key cell_key (remdups (filter (\<lambda>k. k \<noteq> NaN) ks))"

definition groupby_agg ::
  "frame \<Rightarrow> string \<Rightarrow> (string \<times> string \<times> aggfunc) list \<Rightarrow> error + frame" where
  "groupby_agg f key specs =
     (case key_values f key of
        Inl e \<Rightarrow> Inl e
      | Inr ks \<Rightarrow>
     (case traverse
             (\<lambda>(out, src, fn).
                case getitem f src of
                  Inl e \<Rightarrow> Inl e
                | Inr c \<Rightarrow>
                   (case traverse (\<lambda>k. aggregate fn (group_values k ks c)) (group_keys ks) of
                      Inl e \<Rightarrow> Inl e
                    | Inr vs \<Rightarrow> Inr (out, vs)))
             specs of
        Inl e \<Rightarrow> Inl e
      | Inr cols \<Rightarrow> Inr \<lparr>index_name = Some key, index = group_keys ks, columns = cols\<rparr>))"

text \<open>
  \<^verbatim>\<open>df.reset_index()\<close>: the index becomes the first column, under its name
  (\<^verbatim>\<open>index\<close>, or \<^verbatim>\<open>level_0\<close>, when it has none).
\<close>

definition reset_index :: "frame \<Rightarrow> error + frame" where
  "reset_index f =
     (let l = (case index_name f of
                 Some n \<Rightarrow> n
               | None \<Rightarrow> if ''index'' \<in> set (labels f) then ''level_0'' else ''index'')
      in if l \<in> set (labels f) then Inl ValueError
         else Inr \<lparr>index_name = None, index = range_index (nrows f),
                   columns = (l, index f) # columns f\<rparr>)"

subsection \<open>Arithmetic on columns of counts\<close>

fun add_cell :: "cell \<Rightarrow> cell \<Rightarrow> error + cell" where
  "add_cell (IntC x) (IntC y) = Inr (IntC (x + y))"
| "add_cell NaN (IntC y) = Inr NaN"
| "add_cell (IntC x) NaN = Inr NaN"
| "add_cell NaN NaN = Inr NaN"
| "add_cell _ _ = Inl Unsupported"

text \<open>
  True division of integers, as the library does it on floats: a zero divisor gives a
  missing value for \<open>0 / 0\<close> and an infinity otherwise, not an exception.
\<close>

fun div_cell :: "cell \<Rightarrow> cell \<Rightarrow> error + cell" where
  "div_cell (IntC x) (IntC y) =
     Inr (if y = 0 then (if x = 0 then NaN else InfC (0 < x)) else FloatC (of_int x / of_int y))"
| "div_cell NaN (IntC y) = Inr NaN"
| "div_cell (IntC x) NaN = Inr NaN"
| "div_cell NaN NaN = Inr NaN"
| "div_cell _ _ = Inl Unsupported"

definition series_add :: "series \<Rightarrow> series \<Rightarrow> error + series" where
  "series_add a b = traverse (\<lambda>(x, y). add_cell x y) (zip a b)"

definition series_div :: "series \<Rightarrow> series \<Rightarrow> error + series" where
  "series_div a b = traverse (\<lambda>(x, y). div_cell x y) (zip a b)"

section \<open>Table objects and the functions of the script\<close>

text \<open>
  Tables are objects: a variable holds a reference, and an assignment to a column changes
  the object for whoever holds a reference to it. The store maps references to tables;
  \<open>fresh\<close> is the next unused reference. A computation returns a value or an exception,
  and the store it leaves.
\<close>

type_synonym ref = nat

record store =
  objects :: "ref \<Rightarrow> frame"
  fresh :: ref

type_synonym 'a prog = "store \<Rightarrow> (error + 'a) \<times> store"

definition ret :: "'a \<Rightarrow> 'a prog" where
  "ret x = (\<lambda>s. (Inr x, s))"

definition lift :: "error + 'a \<Rightarrow> 'a prog" where
  "lift r = (\<lambda>s. (r, s))"

definition seq :: "'a prog \<Rightarrow> ('a \<Rightarrow> 'b prog) \<Rightarrow> 'b prog" where
  "seq m f = (\<lambda>s. case m s of (Inl e, s') \<Rightarrow> (Inl e, s') | (Inr x, s') \<Rightarrow> f x s')"

definition new :: "frame \<Rightarrow> ref prog" where
  "new f = (\<lambda>s. (Inr (fresh s), s\<lparr>objects := (objects s)(fresh s := f), fresh := Suc (fresh s)\<rparr>))"

definition deref :: "ref \<Rightarrow> frame prog" where
  "deref a = (\<lambda>s. (Inr (objects s a), s))"

definition update :: "ref \<Rightarrow> frame \<Rightarrow> unit prog" where
  "update a f = (\<lambda>s. (Inr (), s\<lparr>objects := (objects s)(a := f)\<rparr>))"

text \<open>The table operations on objects: all but \<open>df_setitem\<close> make a new table.\<close>

definition df_copy :: "ref \<Rightarrow> ref prog" where
  "df_copy a = seq (deref a) new"

definition df_rename :: "ref \<Rightarrow> (string \<times> string) list \<Rightarrow> ref prog" where
  "df_rename a m = seq (deref a) (\<lambda>f. new (rename_columns f m))"

definition df_select :: "ref \<Rightarrow> string list \<Rightarrow> ref prog" where
  "df_select a ls = seq (deref a) (\<lambda>f. seq (lift (select_columns f ls)) new)"

definition df_drop :: "ref \<Rightarrow> string list \<Rightarrow> ref prog" where
  "df_drop a ls = seq (deref a) (\<lambda>f. seq (lift (drop_columns f ls)) new)"

definition df_getitem :: "ref \<Rightarrow> string \<Rightarrow> series prog" where
  "df_getitem a l = seq (deref a) (\<lambda>f. lift (getitem f l))"

definition df_setitem :: "ref \<Rightarrow> string \<Rightarrow> series \<Rightarrow> unit prog" where
  "df_setitem a l v = seq (deref a) (\<lambda>f. update a (setitem f l v))"

definition df_filter :: "ref \<Rightarrow> bool list \<Rightarrow> ref prog" where
  "df_filter a msk = seq (deref a) (\<lambda>f. new (filter_rows f msk))"

definition df_merge :: "ref \<Rightarrow> ref \<Rightarrow> string \<Rightarrow> string \<Rightarrow> ref prog" where
  "df_merge a b left_on right_on =
     seq (deref a) (\<lambda>f. seq (deref b) (\<lambda>g. seq (lift (merge_left f g left_on right_on)) new))"

definition df_groupby_agg :: "ref \<Rightarrow> string \<Rightarrow> (string \<times> string \<times> aggfunc) list \<Rightarrow> ref prog" where
  "df_groupby_agg a key specs = seq (deref a) (\<lambda>f. seq (lift (groupby_agg f key specs)) new)"

definition df_reset_index :: "ref \<Rightarrow> ref prog" where
  "df_reset_index a = seq (deref a) (\<lambda>f. seq (lift (reset_index f)) new)"

subsection \<open>The four stages\<close>

definition merge_regions_and_departments :: "ref \<Rightarrow> ref \<Rightarrow> ref prog" where
  "merge_regions_and_departments regions departments =
     seq (df_rename regions [(''code'', ''code_reg''), (''name'', ''name_reg'')]) (\<lambda>regions.
     seq (df_rename departments
            [(''code'', ''code_dep''), (''name'', ''name_dep''), (''region_code'', ''code_reg'')])
       (\<lambda>departments.
     seq (df_select regions [''code_reg'', ''name_reg'']) (\<lambda>selected.
     seq (df_merge departments selected ''code_reg'' ''code_reg'') (\<lambda>merged.
     df_select merged [''code_reg'', ''name_reg'', ''code_dep'', ''name_dep'']))))"

definition merge_referendum_and_areas :: "ref \<Rightarrow> ref \<Rightarrow> ref prog" where
  "merge_referendum_and_areas referendum regions_and_departments =
     seq (df_copy referendum) (\<lambda>referendum.
     seq (df_getitem referendum ''Department code'') (\<lambda>code.
     seq (lift (astype_str code)) (\<lambda>code.
     seq (df_setitem referendum ''code_dep'' (str_zfill 2 code)) (\<lambda>_.
     seq (df_getitem referendum ''Department name'') (\<lambda>name.
     seq (df_setitem referendum ''name_dep'' name) (\<lambda>_.
     seq (df_copy regions_and_departments) (\<lambda>regions_and_departments.
     seq (df_getitem regions_and_departments ''code_dep'') (\<lambda>code.
     seq (lift (astype_str code)) (\<lambda>code.
     seq (df_setitem regions_and_departments ''code_dep'' (str_zfill 2 code)) (\<lambda>_.
     seq (df_getitem referendum ''code_dep'') (\<lambda>code.
     seq (lift (invert (str_contains ''Z'' code))) (\<lambda>msk.
     seq (df_filter referendum msk) (\<lambda>referendum.
     seq (df_merge referendum regions_and_departments ''code_dep'' ''code_dep'') (\<lambda>merged.
     seq (df_drop merged [''name_dep_y'']) (\<lambda>merged.
     seq (df_rename merged [(''name_dep_x'', ''name_dep'')]) (\<lambda>merged.
     ret merged))))))))))))))))"

definition compute_referendum_result_by_regions :: "ref \<Rightarrow> ref prog" where
  "compute_referendum_result_by_regions referendum_and_areas =
     df_groupby_agg referendum_and_areas ''code_reg''
       [(''name_reg'', ''name_reg'', First),
        (''Registered'', ''Registered'', Sum),
        (''Abstentions'', ''Abstentions'', Sum),
        (''Null'', ''Null'', Sum),
        (''Choice A'', ''Choice A'', Sum),
        (''Choice B'', ''Choice B'', Sum)]"

text \<open>
  \<open>plot_referendum_map\<close> reads the region geometries from a file: the table read is the
  parameter \<open>geojson\<close>. Drawing the map is not modelled; it does not change the table.
\<close>

definition plot_referendum_map :: "frame \<Rightarrow> ref \<Rightarrow> ref prog" where
  "plot_referendum_map geojson referendum_result_by_regions =
     seq (new geojson) (\<lambda>geo.
     seq (df_reset_index referendum_result_by_regions) (\<lambda>results.
     seq (df_merge geo results ''code'' ''code_reg'') (\<lambda>merged.
     seq (df_getitem merged ''Choice A'') (\<lambda>a.
     seq (df_getitem merged ''Choice A'') (\<lambda>a'.
     seq (df_getitem merged ''Choice B'') (\<lambda>b.
     seq (lift (series_add a' b)) (\<lambda>expressed.
     seq (lift (series_div a expressed)) (\<lambda>ratio.
     seq (df_setitem merged ''ratio'' ratio) (\<lambda>_.
     ret merged)))))))))"

text \<open>
  The script run as a program: the three tables are loaded (the references \<open>referendum\<close>,
  \<open>df_reg\<close>, \<open>df_dep\<close>), merged and aggregated; the result is the table of regional results.
\<close>

definition referendum_results :: "ref \<Rightarrow> ref \<Rightarrow> ref \<Rightarrow> ref prog" where
  "referendum_results referendum df_reg df_dep =
     seq (merge_regions_and_departments df_reg df_dep) (\<lambda>regions_and_departments.
     seq (merge_referendum_and_areas referendum regions_and_departments)
       compute_referendum_result_by_regions)"

text \<open>The table a computation returns, read in the store it leaves.\<close>

definition returned :: "(error + ref) \<times> store \<Rightarrow> error + frame" where
  "returned r = (case r of (Inl e, s) \<Rightarrow> Inl e | (Inr a, s) \<Rightarrow> Inr (objects s a))"


text \<open>
  A computation keeps the objects below \<open>n\<close> when, started in a store whose objects below
  \<open>n\<close> all exist, it leaves each of them as it was, whether it returns or raises; \<open>Q\<close>
  holds of the value it returns.
\<close>

definition keeps :: "nat \<Rightarrow> 'a prog \<Rightarrow> ('a \<Rightarrow> bool) \<Rightarrow> bool" where
  "keeps n m Q =
     (\<forall>s. n \<le> fresh s \<longrightarrow>
        (case m s of
           (r, s') \<Rightarrow> n \<le> fresh s' \<and> (\<forall>a<n. objects s' a = objects s a) \<and>
                      (case r of Inl e \<Rightarrow> True | Inr x \<Rightarrow> Q x)))"

subsection \<open>Example tables\<close>

text \<open>
  One metropolitan department (\<^verbatim>\<open>01\<close>, in region \<^verbatim>\<open>84\<close>) and one overseas department
  under its three-digit code \<^verbatim>\<open>971\<close>; the area tables list the metropolitan one.
\<close>

definition ex_referendum :: frame where
  "ex_referendum =
     \<lparr>index_name = None, index = [IntC 0, IntC 1],
      columns = [(''Department code'', [StrC ''01'', StrC ''971'']),
                 (''Department name'', [StrC ''Ain'', StrC ''Guadeloupe'']),
                 (''Registered'', [IntC 1200, IntC 300]),
                 (''Abstentions'', [IntC 150, IntC 40]),
                 (''Null'', [IntC 50, IntC 10]),
                 (''Choice A'', [IntC 600, IntC 100]),
                 (''Choice B'', [IntC 400, IntC 150])]\<rparr>"

definition ex_regions :: frame where
  "ex_regions =
     \<lparr>index_name = None, index = [IntC 0],
      columns = [(''code'', [StrC ''84'']), (''name'', [StrC ''Auvergne-Rhone-Alpes''])]\<rparr>"

definition ex_departments :: frame where
  "ex_departments =
     \<lparr>index_name = None, index = [IntC 0],
      columns = [(''code'', [StrC ''01'']), (''name'', [StrC ''Ain'']),
                 (''region_code'', [StrC ''84''])]\<rparr>"

definition empty_frame :: frame where
  "empty_frame = \<lparr>index_name = None, index = [], columns = []\<rparr>"

text \<open>The store after \<open>load_data\<close>: the three tables under the references 0, 1 and 2.\<close>

definition ex_store :: store where
  "ex_store =
     \<lparr>objects = (\<lambda>a. empty_frame)(0 := ex_referendum, 1 := ex_regions, 2 := ex_departments),
      fresh = 3\<rparr>"

subsection \<open>Notions used to state the claims\<close>

fun printable :: "cell \<Rightarrow> bool" where
  "printable (FloatC q) = False"
| "printable _ = True"

definition text_of :: "cell \<Rightarrow> string" where
  "text_of x = (case str_cell x of Inl e \<Rightarrow> [] | Inr s \<Rightarrow> s)"

definition norm_code :: "cell \<Rightarrow> string" where
  "norm_code x = zfill 2 (text_of x)"

definition overseas :: "cell \<Rightarrow> bool" where
  "overseas x = contains ''Z'' (norm_code x)"

definition join_rows :: "series \<Rightarrow> series \<Rightarrow> (nat \<times> nat option) list" where
  "join_rows codes area_codes =
     left_indexer (map (\<lambda>x. StrC (norm_code x)) (filter (\<lambda>x. \<not> overseas x) codes))
                  (map (\<lambda>x. StrC (norm_code x)) area_codes)"

definition referendum_table :: "frame \<Rightarrow> bool" where
  "referendum_table f \<longleftrightarrow>
     wf_frame f \<and> distinct (labels f) \<and> index_name f = None \<and>
     ''Department name'' \<in> set (labels f) \<and>
     list_all (\<lambda>l. l \<notin> {''code_reg'', ''name_reg'', ''name_dep_x'', ''name_dep_y''}) (labels f) \<and>
     (case getitem f ''Department code'' of Inl e \<Rightarrow> False | Inr c \<Rightarrow> list_all printable c)"

definition area_table :: "frame \<Rightarrow> bool" where
  "area_table f \<longleftrightarrow>
     wf_frame f \<and> index_name f = None \<and>
     labels f = [''code_reg'', ''name_reg'', ''code_dep'', ''name_dep''] \<and>
     (case getitem f ''code_dep'' of Inl e \<Rightarrow> False | Inr c \<Rightarrow> list_all printable c)"

definition yields :: "ref prog \<Rightarrow> store \<Rightarrow> frame \<Rightarrow> bool" where
  "yields m s F =
     (\<exists>x s'. m s = (Inr x, s') \<and> fresh s \<le> x \<and> x < fresh s' \<and> objects s' x = F \<and>
        (\<forall>a<fresh s. objects s' a = objects s a))"

definition demo_referendum :: frame where
  "demo_referendum =
     \<lparr>index_name = None, index = [IntC 0, IntC 1, IntC 2, IntC 3],
      columns = [(''Department code'', [IntC 1, StrC ''2A'', StrC ''ZA'', StrC ''99'']),
                 (''Department name'', [StrC ''AIN'', StrC ''CORSE DU SUD'', StrC ''GUADELOUPE'',
                                        StrC ''NOWHERE'']),
                 (''Registered'', [IntC 1000, IntC 2000, IntC 500, IntC 10]),
                 (''Abstentions'', [IntC 100, IntC 300, IntC 60, IntC 1]),
                 (''Null'', [IntC 10, IntC 20, IntC 5, IntC 0]),
                 (''Choice A'', [IntC 500, IntC 700, IntC 200, IntC 4]),
                 (''Choice B'', [IntC 390, IntC 980, IntC 235, IntC 5])]\<rparr>"

definition demo_areas :: frame where
  "demo_areas =
     \<lparr>index_name = None, index = [IntC 0, IntC 1],
      columns = [(''code_reg'', [StrC ''84'', StrC ''94'']),
                 (''name_reg'', [StrC ''Auvergne-Rhone-Alpes'', StrC ''Corse'']),
                 (''code_dep'', [StrC ''01'', StrC ''2A'']),
                 (''name_dep'', [StrC ''Ain'', StrC ''Corse-du-Sud''])]\<rparr>"

definition demo_store :: store where
  "demo_store =
     \<lparr>objects = (\<lambda>a. \<lparr>index_name = None, index = [], columns = []\<rparr>)
                  (0 := demo_referendum, 1 := demo_areas),
      fresh = 2\<rparr>"

text \<open>
  The five columns of vote counts, and the tables in which each of them holds integers or
  missing values.
\<close>

definition count_columns :: "string list" where
  "count_columns = [''Registered'', ''Abstentions'', ''Null'', ''Choice A'', ''Choice B'']"

definition counts_in :: "frame \<Rightarrow> bool" where
  "counts_in f =
     list_all (\<lambda>l. case getitem f l of Inl e \<Rightarrow> False | Inr c \<Rightarrow> list_all is_count c)
       count_columns"

text \<open>
  A table of referendum rows with their region: unnamed index, distinct labels, the region
  code and name and the five columns of counts.
\<close>

definition merged_table :: "frame \<Rightarrow> bool" where
  "merged_table f \<longleftrightarrow>
     wf_frame f \<and> distinct (labels f) \<and> index_name f = None \<and>
     ''code_reg'' \<in> set (labels f) \<and> ''name_reg'' \<in> set (labels f) \<and> counts_in f"

text \<open>
  Three departments with their regions, two of them in region \<^verbatim>\<open>84\<close>, and one row
  whose department matched no area.
\<close>

definition demo_merged :: frame where
  "demo_merged =
     \<lparr>index_name = None, index = [IntC 0, IntC 1, IntC 2, IntC 3],
      columns = [(''code_dep'', [StrC ''01'', StrC ''2A'', StrC ''03'', StrC ''99'']),
                 (''code_reg'', [StrC ''84'', StrC ''94'', StrC ''84'', NaN]),
                 (''name_reg'', [StrC ''Auvergne-Rhone-Alpes'', StrC ''Corse'',
                                 StrC ''Auvergne-Rhone-Alpes'', NaN]),
                 (''Registered'', [IntC 1000, IntC 500, IntC 2000, IntC 10]),
                 (''Abstentions'', [IntC 100, IntC 60, IntC 300, IntC 1]),
                 (''Null'', [IntC 10, IntC 5, IntC 20, IntC 0]),
                 (''Choice A'', [IntC 500, IntC 200, IntC 700, IntC 4]),
                 (''Choice B'', [IntC 390, IntC 235, IntC 980, IntC 5])]\<rparr>"

definition demo_merged_store :: store where
  "demo_merged_store =
     \<lparr>objects = (\<lambda>a. \<lparr>index_name = None, index = [], columns = []\<rparr>)(0 := demo_merged),
      fresh = 1\<rparr>"

section \<open>Stages and the objects they are given\<close>

lemma keepsD:
  assumes "keeps n m Q" "n \<le> fresh s" "m s = (r, s')"
  shows "n \<le> fresh s'" "\<And>a. a < n \<Longrightarrow> objects s' a = objects s a" "\<And>x. r = Inr x \<Longrightarrow> Q x"
  using assms unfolding keeps_def by (fastforce split: sum.splits)+

lemma keepsI:
  assumes "\<And>(s::store) r s'. n \<le> fresh s \<Longrightarrow> m s = (r, s') \<Longrightarrow>
     n \<le> fresh s' \<and> (\<forall>a<n. objects s' a = objects s a) \<and> (\<forall>x. r = Inr x \<longrightarrow> Q x)"
  shows "keeps n m Q"
  unfolding keeps_def
proof (intro allI impI)
  fix s :: store assume n: "n \<le> fresh s"
  obtain r s' where ms: "m s = (r, s')" by (cases "m s")
  from assms[OF n ms]
  show "case m s of (r, s') \<Rightarrow> n \<le> fresh s' \<and> (\<forall>a<n. objects s' a = objects s a) \<and>
          (case r of Inl e \<Rightarrow> True | Inr x \<Rightarrow> Q x)"
    by (simp add: ms split: sum.split)
qed

lemma keeps_seq:
  assumes m: "keeps n m Q" and f: "\<And>x. Q x \<Longrightarrow> keeps n (f x) R"
  shows "keeps n (seq m f) R"
proof (rule keepsI)
  fix s :: store and r s' assume n: "n \<le> fresh s" and run: "seq m f s = (r, s')"
  obtain r1 s1 where ms: "m s = (r1, s1)" by (cases "m s")
  note k1 = keepsD[OF m n ms]
  show "n \<le> fresh s' \<and> (\<forall>a<n. objects s' a = objects s a) \<and> (\<forall>x. r = Inr x \<longrightarrow> R x)"
  proof (cases r1)
    case (Inl e)
    with run ms have "r = Inl e" "s' = s1" by (simp_all add: seq_def)
    with k1 show ?thesis by simp
  next
    case (Inr x)
    with run ms have fx: "f x s1 = (r, s')" by (simp add: seq_def)
    from k1(3)[OF Inr] have "Q x" .
    note k2 = keepsD[OF f[OF this] k1(1) fx]
    from k2 k1(2) show ?thesis by simp
  qed
qed

lemma keeps_ret: "Q x \<Longrightarrow> keeps n (ret x) Q"
  by (simp add: keeps_def ret_def)

lemma keeps_lift: "keeps n (lift r) (\<lambda>x. True)"
  by (simp add: keeps_def lift_def split: sum.split)

lemma keeps_new: "keeps n (new f) (\<lambda>x. n \<le> x)"
  by (simp add: keeps_def new_def)

lemma keeps_deref: "keeps n (deref a) (\<lambda>x. True)"
  by (simp add: keeps_def deref_def)

lemma keeps_update: "n \<le> a \<Longrightarrow> keeps n (update a f) (\<lambda>x. True)"
  by (simp add: keeps_def update_def)

lemma keeps_lift_new: "keeps n (seq (lift r) new) (\<lambda>x. n \<le> x)"
  by (rule keeps_seq[OF keeps_lift]) (rule keeps_new)

lemma keeps_df_copy: "keeps n (df_copy a) (\<lambda>x. n \<le> x)"
  unfolding df_copy_def by (rule keeps_seq[OF keeps_deref]) (rule keeps_new)

lemma keeps_df_rename: "keeps n (df_rename a m) (\<lambda>x. n \<le> x)"
  unfolding df_rename_def by (rule keeps_seq[OF keeps_deref]) (rule keeps_new)

lemma keeps_df_filter: "keeps n (df_filter a m) (\<lambda>x. n \<le> x)"
  unfolding df_filter_def by (rule keeps_seq[OF keeps_deref]) (rule keeps_new)

lemma keeps_df_select: "keeps n (df_select a ls) (\<lambda>x. n \<le> x)"
  unfolding df_select_def by (rule keeps_seq[OF keeps_deref]) (rule keeps_lift_new)

lemma keeps_df_drop: "keeps n (df_drop a ls) (\<lambda>x. n \<le> x)"
  unfolding df_drop_def by (rule keeps_seq[OF keeps_deref]) (rule keeps_lift_new)

lemma keeps_df_groupby_agg: "keeps n (df_groupby_agg a k sp) (\<lambda>x. n \<le> x)"
  unfolding df_groupby_agg_def by (rule keeps_seq[OF keeps_deref]) (rule keeps_lift_new)

lemma keeps_df_reset_index: "keeps n (df_reset_index a) (\<lambda>x. n \<le> x)"
  unfolding df_reset_index_def by (rule keeps_seq[OF keeps_deref]) (rule keeps_lift_new)

lemma keeps_df_merge: "keeps n (df_merge a b lo ro) (\<lambda>x. n \<le> x)"
  unfolding df_merge_def
  by (rule keeps_seq[OF keeps_deref]) (rule keeps_seq[OF keeps_deref], rule keeps_lift_new)

lemma keeps_df_getitem: "keeps n (df_getitem a l) (\<lambda>x. True)"
  unfolding df_getitem_def by (rule keeps_seq[OF keeps_deref]) (rule keeps_lift)

lemma keeps_df_setitem: "n \<le> a \<Longrightarrow> keeps n (df_setitem a l v) (\<lambda>x. True)"
  unfolding df_setitem_def by (rule keeps_seq[OF keeps_deref]) (rule keeps_update)

lemmas keeps_steps =
  keeps_seq[OF keeps_df_copy] keeps_seq[OF keeps_df_rename] keeps_seq[OF keeps_df_filter]
  keeps_seq[OF keeps_df_select] keeps_seq[OF keeps_df_drop] keeps_seq[OF keeps_df_merge]
  keeps_seq[OF keeps_df_reset_index] keeps_seq[OF keeps_df_getitem] keeps_seq[OF keeps_df_setitem]
  keeps_seq[OF keeps_lift] keeps_seq[OF keeps_new] keeps_seq[OF keeps_df_groupby_agg]

lemma keeps_merge_regions_and_departments:
  "keeps n (merge_regions_and_departments r d) (\<lambda>x. n \<le> x)"
  unfolding merge_regions_and_departments_def
  by (intro keeps_steps keeps_df_select)

lemma keeps_merge_referendum_and_areas:
  "keeps n (merge_referendum_and_areas r d) (\<lambda>x. n \<le> x)"
  unfolding merge_referendum_and_areas_def
  by (intro keeps_steps keeps_ret) assumption+

lemma keeps_compute_referendum_result_by_regions:
  "keeps n (compute_referendum_result_by_regions r) (\<lambda>x. n \<le> x)"
  unfolding compute_referendum_result_by_regions_def
  by (rule keeps_df_groupby_agg)

lemma keeps_plot_referendum_map:
  "keeps n (plot_referendum_map g r) (\<lambda>x. n \<le> x)"
  unfolding plot_referendum_map_def
  by (intro keeps_steps keeps_ret) assumption+

lemma keeps_run:
  fixes s :: store
  assumes "keeps (fresh s) m (\<lambda>x. fresh s \<le> x)" and "a < fresh s"
  shows "objects (snd (m s)) a = objects s a \<and> (\<forall>x. fst (m s) = Inr x \<longrightarrow> fresh s \<le> x)"
  using keepsD[OF assms(1) le_refl surjective_pairing] assms(2) by blast

text \<open>
  C9. No stage changes a table it is given: whatever the arguments, and whether the call
  returns or raises, every object that existed before the call is the same after it, and the
  reference returned is a new one. (The only assignments, to the columns \<^verbatim>\<open>code_dep\<close>,
  \<^verbatim>\<open>name_dep\<close> and \<^verbatim>\<open>ratio\<close>, are made to copies and to merge results.)
\<close>

theorem stages_do_not_mutate_their_inputs:
  fixes s :: store
  assumes "a < fresh s"
  shows
    "(objects (snd (merge_regions_and_departments regions departments s)) a = objects s a \<and>
      (\<forall>x. fst (merge_regions_and_departments regions departments s) = Inr x \<longrightarrow> fresh s \<le> x)) \<and>
     (objects (snd (merge_referendum_and_areas referendum areas s)) a = objects s a \<and>
      (\<forall>x. fst (merge_referendum_and_areas referendum areas s) = Inr x \<longrightarrow> fresh s \<le> x)) \<and>
     (objects (snd (compute_referendum_result_by_regions merged s)) a = objects s a \<and>
      (\<forall>x. fst (compute_referendum_result_by_regions merged s) = Inr x \<longrightarrow> fresh s \<le> x)) \<and>
     (objects (snd (plot_referendum_map geojson results s)) a = objects s a \<and>
      (\<forall>x. fst (plot_referendum_map geojson results s) = Inr x \<longrightarrow> fresh s \<le> x))"
  by (intro conjI keeps_run[OF _ assms, THEN conjunct1] keeps_run[OF _ assms, THEN conjunct2]
      keeps_merge_regions_and_departments keeps_merge_referendum_and_areas
      keeps_compute_referendum_result_by_regions keeps_plot_referendum_map)

theorem stages_do_not_mutate_their_inputs_witness:
  "0 < fresh ex_store \<and>
   objects (snd (merge_regions_and_departments 1 2 ex_store)) 0 = objects ex_store 0 \<and>
   objects (snd (merge_referendum_and_areas 0 1 ex_store)) 0 = objects ex_store 0 \<and>
   objects (snd (compute_referendum_result_by_regions 0 ex_store)) 0 = objects ex_store 0 \<and>
   objects (snd (plot_referendum_map ex_regions 0 ex_store)) 0 = objects ex_store 0"
proof -
  have h: "0 < fresh ex_store" by (simp add: ex_store_def)
  from stages_do_not_mutate_their_inputs[OF h, of 1 2 0 1 0 ex_regions 0] h
  show ?thesis by blast
qed

section \<open>Columns\<close>

lemma traverse_map_Inr: "traverse (\<lambda>x. Inr (g x)) xs = Inr (map g xs)"
  by (induction xs) simp_all

lemma traverse_cong: "(\<And>x. x \<in> set xs \<Longrightarrow> f x = g x) \<Longrightarrow> traverse f xs = traverse g xs"
  by (induction xs) (simp_all cong: sum.case_cong)

lemma traverse_map: "traverse f (map g xs) = traverse (\<lambda>x. f (g x)) xs"
  by (induction xs) (simp_all cong: sum.case_cong)

lemma str_cell_printable: "printable x \<Longrightarrow> str_cell x = Inr (text_of x)"
  by (cases x) (simp_all add: text_of_def)

lemma astype_str_printable:
  assumes "list_all printable c"
  shows "astype_str c = Inr (map (\<lambda>x. StrC (text_of x)) c)"
proof -
  have "traverse (\<lambda>x. case str_cell x of Inl e \<Rightarrow> Inl e | Inr s \<Rightarrow> Inr (StrC s)) c =
        traverse (\<lambda>x. Inr (StrC (text_of x))) c"
    using assms by (intro traverse_cong) (simp add: list_all_iff str_cell_printable)
  then show ?thesis by (simp add: astype_str_def traverse_map_Inr)
qed

lemma str_zfill_text: "str_zfill 2 (map (\<lambda>x. StrC (text_of x)) c) = map (\<lambda>x. StrC (norm_code x)) c"
  by (simp add: str_zfill_def norm_code_def)

lemma invert_contains:
  "invert (str_contains ''Z'' (map (\<lambda>x. StrC (norm_code x)) c)) = Inr (map (\<lambda>x. \<not> overseas x) c)"
  by (simp add: invert_def str_contains_def comp_def traverse_map traverse_map_Inr overseas_def)

lemma keep_map: "keep (map P xs) (map g xs) = map g (filter P xs)"
  by (induction xs) (simp_all add: keep_def)

lemma length_keep_map: "length xs = length ys \<Longrightarrow> length (keep (map P xs) ys) = length (filter P xs)"
  by (induction xs ys rule: list_induct2) (simp_all add: keep_def)

lemma length_zfill: "w \<le> length (zfill w s)"
  by (cases s) (auto simp: zfill_def)

section \<open>Labelled columns\<close>

lemma map_of_replace:
  "map_of (map (\<lambda>(l', c). if l' = l then (l', v) else (l', c)) xs) k =
     (if k = l then (if l \<in> fst ` set xs then Some v else None) else map_of xs k)"
proof (induction xs)
  case Nil
  show ?case by simp
next
  case (Cons x xs)
  obtain a b where x: "x = (a, b)" by (cases x)
  show ?case using Cons by (auto simp: x) (metis fst_conv image_eqI)
qed

lemma getitem_setitem_same: "getitem (setitem f l v) l = Inr v"
  by (auto simp: getitem_def setitem_def labels_def map_of_replace map_add_def
      map_of_eq_None_iff[THEN iffD2])

lemma getitem_setitem_other: "k \<noteq> l \<Longrightarrow> getitem (setitem f l v) k = getitem f k"
  by (auto simp: getitem_def setitem_def labels_def map_of_replace map_add_def split: option.splits)

lemma labels_setitem:
  "labels (setitem f l v) = (if l \<in> set (labels f) then labels f else labels f @ [l])"
  by (auto simp: setitem_def labels_def comp_def case_prod_beta intro!: map_idI)

lemma index_setitem [simp]: "index (setitem f l v) = index f" "index_name (setitem f l v) = index_name f"
  by (simp_all add: setitem_def)

lemma distinct_labels_setitem: "distinct (labels f) \<Longrightarrow> distinct (labels (setitem f l v))"
  by (simp add: labels_setitem)

lemma getitem_labels: "getitem f l = Inr c \<Longrightarrow> l \<in> set (labels f)"
  by (auto simp: getitem_def labels_def split: option.splits dest: map_of_SomeD intro: rev_image_eqI)

lemma getitem_mem: "getitem f l = Inr c \<Longrightarrow> (l, c) \<in> set (columns f)"
  by (auto simp: getitem_def split: option.splits dest: map_of_SomeD)

lemma getitem_length: "wf_frame f \<Longrightarrow> getitem f l = Inr c \<Longrightarrow> length c = nrows f"
  by (auto simp: wf_frame_def nrows_def list_all_iff dest!: getitem_mem)

lemma labels_getitem: "l \<in> set (labels f) \<Longrightarrow> \<exists>c. getitem f l = Inr c"
  by (cases "map_of (columns f) l") (auto simp: getitem_def labels_def map_of_eq_None_iff)

lemma wf_setitem: "wf_frame f \<Longrightarrow> length v = nrows f \<Longrightarrow> wf_frame (setitem f l v)"
  by (auto simp: wf_frame_def setitem_def nrows_def list_all_iff split: if_splits)

lemma filter_label_single:
  "distinct (map fst xs) \<Longrightarrow> map_of xs l = Some c \<Longrightarrow> filter (\<lambda>(l', c). l' = l) xs = [(l, c)]"
proof (induction xs)
  case Nil
  then show ?case by simp
next
  case (Cons x xs)
  show ?case
  proof (cases "fst x = l")
    case True
    with Cons.prems have "filter (\<lambda>(l', c). l' = l) xs = []"
      by (auto simp: filter_empty_conv intro: rev_image_eqI)
    with True Cons.prems show ?thesis by (cases x) auto
  next
    case False
    with Cons show ?thesis by (cases x) auto
  qed
qed

lemma key_values_getitem:
  "distinct (labels f) \<Longrightarrow> index_name f \<noteq> Some l \<Longrightarrow> getitem f l = Inr c \<Longrightarrow> key_values f l = Inr c"
  by (auto simp: key_values_def getitem_def labels_def filter_label_single split: option.splits)

lemma zip_relabel:
  "zip (map f (map fst xs)) (map (\<lambda>(l, c). g c) xs) = map (\<lambda>(l, c). (f l, g c)) xs"
  by (induction xs) auto

lemma not_suffix_dups: "distinct ys \<Longrightarrow> \<not> suffix_dups xs ys"
proof -
  assume d: "distinct ys"
  have "ys ! i \<notin> set (take i ys)" if "i < length ys" for i
  proof
    assume "ys ! i \<in> set (take i ys)"
    then obtain j where "j < length (take i ys)" "take i ys ! j = ys ! i"
      by (auto simp: in_set_conv_nth)
    with that have "j < i" "ys ! j = ys ! i" by simp_all
    with d that show False by (simp add: nth_eq_iff_index_eq)
  qed
  then show ?thesis by (auto simp: suffix_dups_def list_ex_iff)
qed

section \<open>Rows of a left join\<close>

lemma matches_empty: "matches rk v = [] \<longleftrightarrow> v \<notin> set rk"
  by (auto simp: matches_def filter_empty_conv in_set_conv_nth)

lemma matches_mem: "j \<in> set (matches rk v) \<longleftrightarrow> j < length rk \<and> rk ! j = v"
  by (auto simp: matches_def)

lemma left_indexer_mem:
  assumes "(i, j) \<in> set (left_indexer lk rk)"
  shows "i < length lk \<and>
         (case j of None \<Rightarrow> lk ! i \<notin> set rk | Some j' \<Rightarrow> j' < length rk \<and> rk ! j' = lk ! i)"
proof -
  from assms obtain i' where i': "i' < length lk"
    and mem: "(i, j) \<in> set (case matches rk (lk ! i') of [] \<Rightarrow> [(i', None)]
                                | j # js \<Rightarrow> map (\<lambda>j'. (i', Some j')) (j # js))"
    by (auto simp: left_indexer_def)
  show ?thesis
  proof (cases "matches rk (lk ! i')")
    case Nil
    with mem have "i = i'" "j = None" by simp_all
    with Nil i' show ?thesis by (simp add: matches_empty)
  next
    case (Cons a as)
    with mem obtain j' where "i = i'" "j = Some j'" "j' \<in> set (matches rk (lk ! i'))" by auto
    with i' show ?thesis by (simp add: matches_mem)
  qed
qed

lemma length_matches: "length (matches rk v) = length (filter (\<lambda>y. y = v) rk)"
proof -
  have "filter (\<lambda>y. y = v) (map ((!) rk) [0..<length rk]) =
        map ((!) rk) (filter (\<lambda>j. rk ! j = v) [0..<length rk])"
    by (simp add: filter_map comp_def)
  then have "filter (\<lambda>y. y = v) rk = map ((!) rk) (matches rk v)"
    by (simp add: map_nth matches_def)
  then show ?thesis by simp
qed

lemma left_indexer_unique:
  assumes "\<And>i. i < length lk \<Longrightarrow> length (matches rk (lk ! i)) \<le> 1"
  shows "map fst (left_indexer lk rk) = [0..<length lk]"
proof -
  have one: "map fst (case matches rk (lk ! i) of [] \<Rightarrow> [(i, None)]
                      | j # js \<Rightarrow> map (\<lambda>j'. (i, Some j')) (j # js)) = [i]"
    if "i < length lk" for i
    using assms[OF that] by (cases "matches rk (lk ! i)") (auto simp: comp_def)
  have "map fst (left_indexer lk rk) =
        concat (map (\<lambda>i. map fst (case matches rk (lk ! i) of [] \<Rightarrow> [(i, None)]
                      | j # js \<Rightarrow> map (\<lambda>j'. (i, Some j')) (j # js))) [0..<length lk])"
    by (simp add: left_indexer_def map_concat comp_def)
  also have "\<dots> = concat (map (\<lambda>i. [i]) [0..<length lk])"
    by (intro arg_cong[where f=concat] map_cong refl) (simp add: one)
  also have "\<dots> = [0..<length lk]"
    by (induction "[0..<length lk]") auto
  finally show ?thesis .
qed

lemma concat_singletons: "concat (map (\<lambda>i. [i]) xs) = xs"
  by (induction xs) auto

lemma length_left_indexer_unique:
  assumes "\<And>i. i < length lk \<Longrightarrow> length (matches rk (lk ! i)) \<le> 1"
  shows "length (left_indexer lk rk) = length lk"
  using arg_cong[OF left_indexer_unique[OF assms], of length] by simp

lemma take_left_unique:
  assumes "map fst idx = [0..<n]" "length c = n"
  shows "take_left idx c = c"
proof -
  have "take_left idx c = map (\<lambda>i. c ! i) (map fst idx)"
    by (simp add: take_left_def comp_def case_prod_beta)
  also have "map fst idx = [0..<length c]" using assms by simp
  finally show ?thesis by (simp add: map_nth)
qed

section \<open>Filtered tables\<close>

lemma columns_filter_rows:
  "columns (filter_rows f m) = map (\<lambda>(l, c). (l, keep m c)) (columns f)"
  by (simp add: filter_rows_def)

lemma labels_filter_rows: "labels (filter_rows f m) = labels f"
  by (simp add: filter_rows_def labels_def comp_def case_prod_beta)

lemma index_name_filter_rows: "index_name (filter_rows f m) = index_name f"
  by (simp add: filter_rows_def)

lemma getitem_filter_rows:
  "getitem f l = Inr c \<Longrightarrow> getitem (filter_rows f m) l = Inr (keep m c)"
  by (simp add: getitem_def columns_filter_rows map_of_map split: option.splits)

lemma zip_relabel2:
  "zip (map r (map fst (map (\<lambda>(l, c). (l, g c)) xs)))
       (map (\<lambda>(l, c). h c) (map (\<lambda>(l, c). (l, g c)) xs)) =
   map (\<lambda>(l, c). (r l, h (g c))) xs"
  by (induction xs) auto

lemma columns_of_labels4:
  assumes "labels f = [a, b, c, d]"
  obtains x1 x2 x3 x4 where "columns f = [(a, x1), (b, x2), (c, x3), (d, x4)]"
  using assms unfolding labels_def by (auto simp: map_eq_Cons_conv)

lemma merge_left_on:
  assumes kl: "key_values L k = Inr lk" and kr: "key_values R k = Inr rk"
    and rc: "filter (\<lambda>(l, c). l \<noteq> k) (columns R) = rcols"
    and ll: "map (\<lambda>l. if l \<in> set (labels L) \<and> l \<in> set (map fst rcols) then l @ ''_x'' else l)
               (labels L) = llabels"
    and rl: "map (\<lambda>l. if l \<in> set (labels L) \<and> l \<in> set (map fst rcols) then l @ ''_y'' else l)
               (map fst rcols) = rlabels"
    and d1: "distinct llabels" and d2: "distinct rlabels"
  shows "merge_left L R k k =
         Inr \<lparr>index_name = None, index = range_index (length (left_indexer lk rk)),
              columns = zip llabels (map (\<lambda>(l, c). take_left (left_indexer lk rk) c) (columns L)) @
                        zip rlabels (map (\<lambda>(l, c). take_right (left_indexer lk rk) c) rcols)\<rparr>"
proof -
  have ov: "\<And>l. l \<in> set (filter (\<lambda>l. l \<in> set (map fst rcols)) (labels L)) \<longleftrightarrow>
              l \<in> set (labels L) \<and> l \<in> set (map fst rcols)"
    by simp
  have sd: "suffix_dups (labels L) llabels = False" "suffix_dups (map fst rcols) rlabels = False"
    using not_suffix_dups[OF d1] not_suffix_dups[OF d2] by simp_all
  show ?thesis
    by (simp only: merge_left_def kl kr sum.case Let_def rc if_True simp_thms ov ll rl sd if_False)
qed

lemma merge_left_keys:
  assumes kl: "key_values L k1 = Inr lk" and kr: "key_values R k2 = Inr rk"
    and ne: "k1 \<noteq> k2"
    and ll: "map (\<lambda>l. if l \<in> set (labels L) \<and> l \<in> set (labels R) then l @ ''_x'' else l)
               (labels L) = llabels"
    and rl: "map (\<lambda>l. if l \<in> set (labels L) \<and> l \<in> set (labels R) then l @ ''_y'' else l)
               (labels R) = rlabels"
    and d1: "distinct llabels" and d2: "distinct rlabels"
  shows "merge_left L R k1 k2 =
         Inr \<lparr>index_name = None, index = range_index (length (left_indexer lk rk)),
              columns = zip llabels (map (\<lambda>(l, c). take_left (left_indexer lk rk) c) (columns L)) @
                        zip rlabels (map (\<lambda>(l, c). take_right (left_indexer lk rk) c) (columns R))\<rparr>"
proof -
  have ov: "\<And>l. l \<in> set (filter (\<lambda>l. l \<in> set (map fst (columns R))) (labels L)) \<longleftrightarrow>
              l \<in> set (labels L) \<and> l \<in> set (labels R)"
    by (simp add: labels_def)
  have sd: "suffix_dups (labels L) llabels = False"
    "suffix_dups (map fst (columns R)) rlabels = False"
    using not_suffix_dups[OF d1] not_suffix_dups[OF d2] by simp_all
  have rl': "map (\<lambda>l. if l \<in> set (labels L) \<and> l \<in> set (labels R) then l @ ''_y'' else l)
               (map fst (columns R)) = rlabels"
    using rl by (simp add: labels_def)
  show ?thesis
    by (simp only: merge_left_def kl kr sum.case Let_def ne if_True simp_thms ov ll rl' sd if_False)
qed

lemma mra_merge:
  fixes R A :: frame
  assumes dR: "distinct (labels R)" and iR: "index_name R = None"
    and c1: "getitem R ''Department code'' = Inr c1"
    and nm: "getitem R ''Department name'' = Inr nm"
    and av: "list_all (\<lambda>l. l \<notin> {''code_reg'', ''name_reg'', ''name_dep_x'', ''name_dep_y''}) (labels R)"
    and A: "columns A = [(''code_reg'', creg), (''name_reg'', nreg), (''code_dep'', ac), (''name_dep'', an)]"
    and iA: "index_name A = None"
    and L1: "L1 = setitem (setitem R ''code_dep'' (map (\<lambda>x. StrC (norm_code x)) c1)) ''name_dep'' nm"
    and msk: "msk = map (\<lambda>x. \<not> overseas x) c1"
    and idx: "idx = join_rows c1 ac"
  shows "merge_left (filter_rows L1 msk) (setitem A ''code_dep'' (map (\<lambda>x. StrC (norm_code x)) ac))
           ''code_dep'' ''code_dep'' =
         Inr \<lparr>index_name = None, index = range_index (length idx),
              columns = map (\<lambda>(l, c). (if l = ''name_dep'' then ''name_dep_x'' else l,
                                        take_left idx (keep msk c))) (columns L1) @
                        [(''code_reg'', take_right idx creg), (''name_reg'', take_right idx nreg),
                         (''name_dep_y'', take_right idx an)]\<rparr>"
proof -
  let ?FL = "filter_rows L1 msk"
  let ?A1 = "setitem A ''code_dep'' (map (\<lambda>x. StrC (norm_code x)) ac)"
  let ?r = "\<lambda>l. if l = ''name_dep'' then ''name_dep_x'' else l"
  have labL1: "set (labels L1) = set (labels R) \<union> {''code_dep'', ''name_dep''}"
    by (auto simp: L1 labels_setitem)
  have dL1: "distinct (labels L1)"
    unfolding L1 by (intro distinct_labels_setitem dR)
  from av have avoid: "''code_reg'' \<notin> set (labels L1)" "''name_reg'' \<notin> set (labels L1)"
    "''name_dep_x'' \<notin> set (labels L1)" "''name_dep_y'' \<notin> set (labels L1)"
    by (auto simp: labL1 list_all_iff)
  have nd: "''name_dep'' \<in> set (labels L1)" by (simp add: labL1)
  have gk: "getitem L1 ''code_dep'' = Inr (map (\<lambda>x. StrC (norm_code x)) c1)"
    by (simp add: L1 getitem_setitem_other getitem_setitem_same)
  have kl: "key_values ?FL ''code_dep'' =
            Inr (map (\<lambda>x. StrC (norm_code x)) (filter (\<lambda>x. \<not> overseas x) c1))"
  proof -
    have "key_values ?FL ''code_dep'' = Inr (keep msk (map (\<lambda>x. StrC (norm_code x)) c1))"
    proof (rule key_values_getitem)
      show "distinct (labels ?FL)" by (simp add: labels_filter_rows dL1)
      show "index_name ?FL \<noteq> Some ''code_dep''" by (simp add: index_name_filter_rows L1 iR)
      show "getitem ?FL ''code_dep'' = Inr (keep msk (map (\<lambda>x. StrC (norm_code x)) c1))"
        by (rule getitem_filter_rows[OF gk])
    qed
    then show ?thesis by (simp add: msk keep_map)
  qed
  have A1: "columns ?A1 = [(''code_reg'', creg), (''name_reg'', nreg),
      (''code_dep'', map (\<lambda>x. StrC (norm_code x)) ac), (''name_dep'', an)]"
    by (simp add: setitem_def labels_def A)
  have kr: "key_values ?A1 ''code_dep'' = Inr (map (\<lambda>x. StrC (norm_code x)) ac)"
    by (simp add: key_values_def A1 iA)
  have rc: "filter (\<lambda>(l, c). l \<noteq> ''code_dep'') (columns ?A1) =
      [(''code_reg'', creg), (''name_reg'', nreg), (''name_dep'', an)]"
    by (simp add: A1)
  have ll: "map (\<lambda>l. if l \<in> set (labels ?FL) \<and>
        l \<in> set (map fst [(''code_reg'', creg), (''name_reg'', nreg), (''name_dep'', an)])
      then l @ ''_x'' else l) (labels ?FL) = map ?r (labels ?FL)"
    by (rule map_cong[OF refl]) (use avoid in \<open>auto simp: labels_filter_rows\<close>)
  have rl: "map (\<lambda>l. if l \<in> set (labels ?FL) \<and>
        l \<in> set (map fst [(''code_reg'', creg), (''name_reg'', nreg), (''name_dep'', an)])
      then l @ ''_y'' else l) (map fst [(''code_reg'', creg), (''name_reg'', nreg), (''name_dep'', an)])
      = [''code_reg'', ''name_reg'', ''name_dep_y'']"
    using nd avoid by (simp add: labels_filter_rows)
  have dl: "distinct (map ?r (labels ?FL))"
    using dL1 avoid by (auto simp: distinct_map labels_filter_rows inj_on_def)
  have cols: "zip (map ?r (labels ?FL)) (map (\<lambda>(l, c). take_left idx c) (columns ?FL)) =
        map (\<lambda>(l, c). (?r l, take_left idx (keep msk c))) (columns L1)"
    unfolding labels_def columns_filter_rows by (rule zip_relabel2)
  have "idx = left_indexer (map (\<lambda>x. StrC (norm_code x)) (filter (\<lambda>x. \<not> overseas x) c1))
                           (map (\<lambda>x. StrC (norm_code x)) ac)"
    by (simp add: idx join_rows_def)
  with merge_left_on[OF kl kr rc ll rl dl] cols show ?thesis by simp
qed

lemmas prog_defs = ret_def lift_def seq_def new_def deref_def update_def df_copy_def df_rename_def
  df_select_def df_drop_def df_getitem_def df_setitem_def df_filter_def df_merge_def
  df_groupby_agg_def df_reset_index_def

lemma yieldsI:
  fixes s :: store
  assumes "fst (m s) = Inr x" "x < fresh (snd (m s))" "objects (snd (m s)) x = F"
    and "keeps (fresh s) m (\<lambda>x. fresh s \<le> x)"
  shows "yields m s F"
proof -
  obtain r s' where ms: "m s = (r, s')" by (cases "m s")
  note k = keepsD[OF assms(4) le_refl ms]
  from assms(1-3) ms k show ?thesis
    unfolding yields_def by (intro exI[of _ x] exI[of _ s']) simp
qed

lemma yields_returned: "yields m s F \<Longrightarrow> returned (m s) = Inr F"
  by (auto simp: yields_def returned_def)

lemma yields_seq:
  fixes s :: store
  assumes "yields m s F"
    and "\<And>x s'. fresh s \<le> x \<Longrightarrow> x < fresh s' \<Longrightarrow> objects s' x = F \<Longrightarrow>
            (\<forall>a<fresh s. objects s' a = objects s a) \<Longrightarrow> yields (f x) s' G"
  shows "yields (seq m f) s G"
proof -
  from assms(1) obtain x s' where m: "m s = (Inr x, s')" and x: "fresh s \<le> x" "x < fresh s'"
    and F: "objects s' x = F" and old: "\<forall>a<fresh s. objects s' a = objects s a"
    by (auto simp: yields_def)
  from assms(2)[OF x F old] obtain y s'' where f: "f x s' = (Inr y, s'')"
    and y: "fresh s' \<le> y" "y < fresh s''" and G: "objects s'' y = G"
    and old': "\<forall>a<fresh s'. objects s'' a = objects s' a"
    by (auto simp: yields_def)
  have "seq m f s = (Inr y, s'')" by (simp add: seq_def m f)
  moreover have "fresh s \<le> y" using x y by simp
  moreover have "\<forall>a<fresh s. objects s'' a = objects s a" using old old' x by simp
  ultimately show ?thesis using y G unfolding yields_def by blast
qed

lemma mra_run:
  fixes s :: store
  assumes live: "d < fresh s"
    and c1: "getitem (objects s r) ''Department code'' = Inr c1"
    and c2: "astype_str c1 = Inr c2"
    and L0: "L0 = setitem (objects s r) ''code_dep'' (str_zfill 2 c2)"
    and nm: "getitem L0 ''Department name'' = Inr nm"
    and L1: "L1 = setitem L0 ''name_dep'' nm"
    and c3: "getitem (objects s d) ''code_dep'' = Inr c3"
    and c4: "astype_str c3 = Inr c4"
    and A1: "A1 = setitem (objects s d) ''code_dep'' (str_zfill 2 c4)"
    and c5: "getitem L1 ''code_dep'' = Inr c5"
    and msk: "invert (str_contains ''Z'' c5) = Inr msk"
    and M: "merge_left (filter_rows L1 msk) A1 ''code_dep'' ''code_dep'' = Inr M"
    and D: "drop_columns M [''name_dep_y''] = Inr D"
  shows "yields (merge_referendum_and_areas r d) s
           (rename_columns D [(''name_dep_x'', ''name_dep'')])"
proof (rule yieldsI[where x = "fresh s + 5"])
  show "fst (merge_referendum_and_areas r d s) = Inr (fresh s + 5)"
    using live
    by (simp add: merge_referendum_and_areas_def prog_defs c1 c2 L0[symmetric] nm
        L1[symmetric] c3 c4 A1[symmetric] c5 msk M D)
  show "fresh s + 5 < fresh (snd (merge_referendum_and_areas r d s))"
    using live
    by (simp add: merge_referendum_and_areas_def prog_defs c1 c2 L0[symmetric] nm
        L1[symmetric] c3 c4 A1[symmetric] c5 msk M D)
  show "objects (snd (merge_referendum_and_areas r d s)) (fresh s + 5) =
        rename_columns D [(''name_dep_x'', ''name_dep'')]"
    using live
    by (simp add: merge_referendum_and_areas_def prog_defs c1 c2 L0[symmetric] nm
        L1[symmetric] c3 c4 A1[symmetric] c5 msk M D)
  show "keeps (fresh s) (merge_referendum_and_areas r d) (\<lambda>x. fresh s \<le> x)"
    by (rule keeps_merge_referendum_and_areas)
qed

lemma mra_yields:
  fixes s :: store
  assumes live: "d < fresh s"
    and R: "referendum_table (objects s r)" and A: "area_table (objects s d)"
    and c1: "getitem (objects s r) ''Department code'' = Inr c1"
    and nm: "getitem (objects s r) ''Department name'' = Inr nm"
    and creg: "getitem (objects s d) ''code_reg'' = Inr creg"
    and nreg: "getitem (objects s d) ''name_reg'' = Inr nreg"
    and ac: "getitem (objects s d) ''code_dep'' = Inr ac"
  shows "yields (merge_referendum_and_areas r d) s
         \<lparr>index_name = None, index = range_index (length (join_rows c1 ac)),
              columns =
                map (\<lambda>(l, c). (l, take_left (join_rows c1 ac) (keep (map (\<lambda>x. \<not> overseas x) c1) c)))
                  (columns (setitem (setitem (objects s r) ''code_dep''
                      (map (\<lambda>x. StrC (norm_code x)) c1)) ''name_dep'' nm)) @
                [(''code_reg'', take_right (join_rows c1 ac) creg),
                 (''name_reg'', take_right (join_rows c1 ac) nreg)]\<rparr>"
proof -
  let ?R = "objects s r" and ?A = "objects s d"
  let ?n = "map (\<lambda>x. StrC (norm_code x)) c1"
  let ?idx = "join_rows c1 ac"
  let ?msk = "map (\<lambda>x. \<not> overseas x) c1"
  define L0 where "L0 = setitem ?R ''code_dep'' ?n"
  define L1 where "L1 = setitem L0 ''name_dep'' nm"
  define A1 where "A1 = setitem ?A ''code_dep'' (map (\<lambda>x. StrC (norm_code x)) ac)"
  let ?r = "\<lambda>l. if l = ''name_dep'' then ''name_dep_x'' else l"
  from R c1 have dR: "distinct (labels ?R)" and iR: "index_name ?R = None"
    and av: "list_all (\<lambda>l. l \<notin> {''code_reg'', ''name_reg'', ''name_dep_x'', ''name_dep_y''}) (labels ?R)"
    and p1: "list_all printable c1"
    by (simp_all add: referendum_table_def)
  from A ac have iA: "index_name ?A = None"
    and lA: "labels ?A = [''code_reg'', ''name_reg'', ''code_dep'', ''name_dep'']"
    and p2: "list_all printable ac"
    by (simp_all add: area_table_def)
  from lA obtain x1 x2 x3 x4 where
    cA0: "columns ?A = [(''code_reg'', x1), (''name_reg'', x2), (''code_dep'', x3), (''name_dep'', x4)]"
    by (rule columns_of_labels4)
  with creg nreg ac have
    cA: "columns ?A = [(''code_reg'', creg), (''name_reg'', nreg), (''code_dep'', ac), (''name_dep'', x4)]"
    by (simp add: getitem_def)
  define M where "M = \<lparr>index_name = None, index = range_index (length ?idx),
              columns = map (\<lambda>(l, c). (?r l, take_left ?idx (keep ?msk c))) (columns L1) @
                        [(''code_reg'', take_right ?idx creg), (''name_reg'', take_right ?idx nreg),
                         (''name_dep_y'', take_right ?idx x4)]\<rparr>"
  have mg: "merge_left (filter_rows L1 ?msk) A1 ''code_dep'' ''code_dep'' = Inr M"
    unfolding M_def A1_def
    by (rule mra_merge[OF dR iR c1 nm av cA iA _ refl refl]) (simp add: L1_def L0_def)
  have labL1: "set (labels L1) = set (labels ?R) \<union> {''code_dep'', ''name_dep''}"
    by (auto simp: L1_def L0_def labels_setitem)
  from av have avoid: "''name_dep_x'' \<notin> set (labels L1)" "''name_dep_y'' \<notin> set (labels L1)"
    "''code_reg'' \<notin> set (labels L1)" "''name_reg'' \<notin> set (labels L1)"
    by (auto simp: labL1 list_all_iff)
  have inL1: "\<And>l c. (l, c) \<in> set (columns L1) \<Longrightarrow> l \<in> set (labels L1)"
    by (auto simp: labels_def intro: rev_image_eqI)
  define D where "D = \<lparr>index_name = None, index = range_index (length ?idx),
              columns = map (\<lambda>(l, c). (?r l, take_left ?idx (keep ?msk c))) (columns L1) @
                        [(''code_reg'', take_right ?idx creg), (''name_reg'', take_right ?idx nreg)]\<rparr>"
  have keepall: "filter (\<lambda>(l, c). l \<noteq> ''name_dep_y'')
          (map (\<lambda>(l, c). (?r l, take_left ?idx (keep ?msk c))) (columns L1)) =
        map (\<lambda>(l, c). (?r l, take_left ?idx (keep ?msk c))) (columns L1)"
    using avoid inL1 by (auto simp: filter_id_conv split: if_splits)
  have dr: "drop_columns M [''name_dep_y''] = Inr D"
    by (simp add: drop_columns_def M_def D_def labels_def keepall)
  have restore: "map (\<lambda>(l, c). (case map_of [(''name_dep_x'', ''name_dep'')] l of None \<Rightarrow> l | Some l' \<Rightarrow> l', c))
          (map (\<lambda>(l, c). (?r l, take_left ?idx (keep ?msk c))) (columns L1)) =
        map (\<lambda>(l, c). (l, take_left ?idx (keep ?msk c))) (columns L1)"
    using avoid inL1 by (auto simp: comp_def split: if_splits)
  have rn: "rename_columns D [(''name_dep_x'', ''name_dep'')] =
        \<lparr>index_name = None, index = range_index (length ?idx),
              columns = map (\<lambda>(l, c). (l, take_left ?idx (keep ?msk c))) (columns L1) @
                        [(''code_reg'', take_right ?idx creg), (''name_reg'', take_right ?idx nreg)]\<rparr>"
    using restore by (simp add: rename_columns_def D_def)
  have a1: "astype_str c1 = Inr (map (\<lambda>x. StrC (text_of x)) c1)"
    by (rule astype_str_printable[OF p1])
  have a2: "astype_str ac = Inr (map (\<lambda>x. StrC (text_of x)) ac)"
    by (rule astype_str_printable[OF p2])
  have "yields (merge_referendum_and_areas r d) s
        (rename_columns D [(''name_dep_x'', ''name_dep'')])"
  proof (rule mra_run[OF live c1 a1 _ _ _ ac a2 _ _ _ _ dr])
    show "L0 = setitem ?R ''code_dep'' (str_zfill 2 (map (\<lambda>x. StrC (text_of x)) c1))"
      by (simp add: L0_def str_zfill_text)
    show "getitem L0 ''Department name'' = Inr nm"
      by (simp add: L0_def getitem_setitem_other nm)
    show "L1 = setitem L0 ''name_dep'' nm" by (simp add: L1_def)
    show "A1 = setitem ?A ''code_dep'' (str_zfill 2 (map (\<lambda>x. StrC (text_of x)) ac))"
      by (simp add: A1_def str_zfill_text)
    show "getitem L1 ''code_dep'' = Inr ?n"
      by (simp add: L1_def L0_def getitem_setitem_other getitem_setitem_same)
    show "invert (str_contains ''Z'' ?n) = Inr ?msk" by (rule invert_contains)
    show "merge_left (filter_rows L1 ?msk) A1 ''code_dep'' ''code_dep'' = Inr M" by (rule mg)
  qed
  then show ?thesis by (simp add: rn L1_def L0_def)
qed

lemma getitem_mapped:
  "getitem L l = Inr c \<Longrightarrow>
   getitem \<lparr>index_name = a, index = b, columns = map (\<lambda>(l, c). (l, g c)) (columns L) @ ys\<rparr> l =
   Inr (g c)"
  by (simp add: getitem_def map_of_map map_add_def split: option.splits)

lemma getitem_appended:
  "l \<notin> set (labels L) \<Longrightarrow>
   getitem \<lparr>index_name = a, index = b, columns = map (\<lambda>(l, c). (l, g c)) (columns L) @ ys\<rparr> l =
   (case map_of ys l of None \<Rightarrow> Inl KeyError | Some c \<Rightarrow> Inr c)"
  by (simp add: getitem_def map_of_map map_add_def labels_def map_of_eq_None_iff[THEN iffD2]
      split: option.splits)

lemma labels_mapped:
  "labels \<lparr>index_name = a, index = b, columns = map (\<lambda>(l, c). (l, g c)) (columns L) @ ys\<rparr> =
   labels L @ map fst ys"
  by (simp add: labels_def comp_def case_prod_beta)

lemma length_range_index [simp]: "length (range_index n) = n"
  by (simp add: range_index_def)

text \<open>What the referendum merger returns, column by column.\<close>

lemma mra_facts:
  fixes s :: store
  assumes live: "d < fresh s"
    and R: "referendum_table (objects s r)" and A: "area_table (objects s d)"
    and c1: "getitem (objects s r) ''Department code'' = Inr c1"
    and ac: "getitem (objects s d) ''code_dep'' = Inr ac"
  obtains F nm creg nreg where
    "yields (merge_referendum_and_areas r d) s F"
    "getitem (objects s r) ''Department name'' = Inr nm"
    "getitem (objects s d) ''code_reg'' = Inr creg"
    "getitem (objects s d) ''name_reg'' = Inr nreg"
    "nrows F = length (join_rows c1 ac)"
    "getitem F ''code_dep'' =
       Inr (take_left (join_rows c1 ac) (map (\<lambda>x. StrC (norm_code x)) (filter (\<lambda>x. \<not> overseas x) c1)))"
    "getitem F ''name_dep'' = Inr (take_left (join_rows c1 ac) (keep (map (\<lambda>x. \<not> overseas x) c1) nm))"
    "getitem F ''Department name'' = Inr (take_left (join_rows c1 ac) (keep (map (\<lambda>x. \<not> overseas x) c1) nm))"
    "getitem F ''code_reg'' = Inr (take_right (join_rows c1 ac) creg)"
    "getitem F ''name_reg'' = Inr (take_right (join_rows c1 ac) nreg)"
    "distinct (labels F)" "''name_dep'' \<in> set (labels F)"
    "''name_dep_x'' \<notin> set (labels F)" "''name_dep_y'' \<notin> set (labels F)"
proof -
  let ?R = "objects s r" and ?A = "objects s d"
  let ?idx = "join_rows c1 ac"
  let ?msk = "map (\<lambda>x. \<not> overseas x) c1"
  let ?n = "map (\<lambda>x. StrC (norm_code x)) c1"
  from R have "''Department name'' \<in> set (labels ?R)" by (simp add: referendum_table_def)
  then obtain nm where nm: "getitem ?R ''Department name'' = Inr nm"
    using labels_getitem by blast
  from A have lA: "labels ?A = [''code_reg'', ''name_reg'', ''code_dep'', ''name_dep'']"
    by (simp add: area_table_def)
  then obtain creg nreg where creg: "getitem ?A ''code_reg'' = Inr creg"
    and nreg: "getitem ?A ''name_reg'' = Inr nreg"
    using labels_getitem[of "''code_reg''" ?A] labels_getitem[of "''name_reg''" ?A] by auto
  define L1 where "L1 = setitem (setitem ?R ''code_dep'' ?n) ''name_dep'' nm"
  define F where "F = \<lparr>index_name = None, index = range_index (length ?idx),
      columns = map (\<lambda>(l, c). (l, take_left ?idx (keep ?msk c))) (columns L1) @
        [(''code_reg'', take_right ?idx creg), (''name_reg'', take_right ?idx nreg)]\<rparr>"
  have y: "yields (merge_referendum_and_areas r d) s F"
    unfolding F_def L1_def by (rule mra_yields[OF live R A c1 nm creg nreg ac])
  from R have dR: "distinct (labels ?R)"
    and av: "list_all (\<lambda>l. l \<notin> {''code_reg'', ''name_reg'', ''name_dep_x'', ''name_dep_y''}) (labels ?R)"
    by (simp_all add: referendum_table_def)
  have labL1: "set (labels L1) = set (labels ?R) \<union> {''code_dep'', ''name_dep''}"
    by (auto simp: L1_def labels_setitem)
  have dL1: "distinct (labels L1)"
    unfolding L1_def by (intro distinct_labels_setitem dR)
  from av have avoid: "''name_dep_x'' \<notin> set (labels L1)" "''name_dep_y'' \<notin> set (labels L1)"
    "''code_reg'' \<notin> set (labels L1)" "''name_reg'' \<notin> set (labels L1)"
    by (auto simp: labL1 list_all_iff)
  have g1: "getitem L1 ''code_dep'' = Inr ?n"
    by (simp add: L1_def getitem_setitem_other getitem_setitem_same)
  have g2: "getitem L1 ''name_dep'' = Inr nm"
    by (simp add: L1_def getitem_setitem_same)
  have g3: "getitem L1 ''Department name'' = Inr nm"
    by (simp add: L1_def getitem_setitem_other nm)
  have labF: "labels F = labels L1 @ [''code_reg'', ''name_reg'']"
    unfolding F_def by (simp add: labels_mapped)
  show thesis
  proof (rule that[OF y nm creg nreg])
    show "nrows F = length ?idx" by (simp add: F_def nrows_def)
    show "getitem F ''code_dep'' =
       Inr (take_left ?idx (map (\<lambda>x. StrC (norm_code x)) (filter (\<lambda>x. \<not> overseas x) c1)))"
      unfolding F_def using getitem_mapped[OF g1] by (simp add: keep_map)
    show "getitem F ''name_dep'' = Inr (take_left ?idx (keep ?msk nm))"
      unfolding F_def by (rule getitem_mapped[OF g2])
    show "getitem F ''Department name'' = Inr (take_left ?idx (keep ?msk nm))"
      unfolding F_def by (rule getitem_mapped[OF g3])
    show "getitem F ''code_reg'' = Inr (take_right ?idx creg)"
      unfolding F_def by (simp add: getitem_appended[OF avoid(3)])
    show "getitem F ''name_reg'' = Inr (take_right ?idx nreg)"
      unfolding F_def by (simp add: getitem_appended[OF avoid(4)])
    show "distinct (labels F)" using dL1 avoid by (simp add: labF)
    show "''name_dep'' \<in> set (labels F)" by (simp add: labF labL1)
    show "''name_dep_x'' \<notin> set (labels F)" using avoid by (simp add: labF)
    show "''name_dep_y'' \<notin> set (labels F)" using avoid by (simp add: labF)
  qed
qed

lemma norm_code_simps:
  "norm_code (IntC 1) = ''01''" "norm_code (StrC ''2A'') = ''2A''" "norm_code (StrC ''ZA'') = ''ZA''"
  "norm_code (StrC ''99'') = ''99''" "norm_code (StrC ''01'') = ''01''"
  by (simp_all add: norm_code_def text_of_def zfill_def str_of_nat.simps digit_def)

lemma demo_tables:
  "referendum_table (objects demo_store 0)" "area_table (objects demo_store 1)"
  "getitem (objects demo_store 0) ''Department code'' = Inr [IntC 1, StrC ''2A'', StrC ''ZA'', StrC ''99'']"
  "getitem (objects demo_store 1) ''code_dep'' = Inr [StrC ''01'', StrC ''2A'']"
  "getitem (objects demo_store 0) ''Department name'' =
     Inr [StrC ''AIN'', StrC ''CORSE DU SUD'', StrC ''GUADELOUPE'', StrC ''NOWHERE'']"
  "getitem (objects demo_store 1) ''code_reg'' = Inr [StrC ''84'', StrC ''94'']"
  "1 < fresh demo_store"
  by (simp_all add: demo_store_def demo_referendum_def demo_areas_def referendum_table_def
      area_table_def wf_frame_def labels_def getitem_def)

lemma sum_length_filter: "length (filter (\<lambda>x. \<not> P x) xs) = length xs - length (filter P xs)"
  using sum_length_filter_compl[of P xs] by simp

text \<open>
  C2. The referendum merger removes the rows whose normalised department code contains
  \<^verbatim>\<open>Z\<close>, and only those: when every department code matches at most one area row,
  the result has as many rows as the referendum table has rows without \<^verbatim>\<open>Z\<close>, and
  its \<^verbatim>\<open>code_dep\<close> column lists exactly their normalised codes, in order.
\<close>

theorem referendum_merger_drops_overseas_rows:
  fixes s :: store
  assumes "areas < fresh s"
    and "referendum_table (objects s referendum)" and "area_table (objects s areas)"
    and "getitem (objects s referendum) ''Department code'' = Inr codes"
    and "getitem (objects s areas) ''code_dep'' = Inr area_codes"
    and "\<forall>x\<in>set codes. length (filter (\<lambda>y. norm_code y = norm_code x) area_codes) \<le> 1"
  shows "\<exists>F. returned (merge_referendum_and_areas referendum areas s) = Inr F \<and>
           nrows F = nrows (objects s referendum) - length (filter overseas codes) \<and>
           getitem F ''code_dep'' =
             Inr (map (\<lambda>x. StrC (norm_code x)) (filter (\<lambda>x. \<not> overseas x) codes))"
proof -
  let ?lk = "map (\<lambda>x. StrC (norm_code x)) (filter (\<lambda>x. \<not> overseas x) codes)"
  let ?rk = "map (\<lambda>x. StrC (norm_code x)) area_codes"
  from mra_facts[OF assms(1-5)] obtain F where
    y: "yields (merge_referendum_and_areas referendum areas) s F"
    and n: "nrows F = length (join_rows codes area_codes)"
    and cd: "getitem F ''code_dep'' = Inr (take_left (join_rows codes area_codes) ?lk)"
    by metis
  have one: "length (matches ?rk (?lk ! i)) \<le> 1" if "i < length ?lk" for i
  proof -
    from that have "?lk ! i \<in> set ?lk" by (rule nth_mem)
    then obtain x where x: "x \<in> set codes" "?lk ! i = StrC (norm_code x)" by auto
    have "length (matches ?rk (?lk ! i)) = length (filter (\<lambda>y. StrC (norm_code y) = StrC (norm_code x)) area_codes)"
      by (simp add: length_matches x filter_map comp_def)
    with assms(6) x show ?thesis by simp
  qed
  have fsts: "map fst (join_rows codes area_codes) = [0..<length ?lk]"
    unfolding join_rows_def by (rule left_indexer_unique[OF one])
  have len: "length (join_rows codes area_codes) = length ?lk"
    unfolding join_rows_def by (rule length_left_indexer_unique[OF one])
  from assms(2) have "wf_frame (objects s referendum)" by (simp add: referendum_table_def)
  from getitem_length[OF this assms(4)] have lc: "length codes = nrows (objects s referendum)" .
  have "nrows F = nrows (objects s referendum) - length (filter overseas codes)"
    by (simp add: n len sum_length_filter lc)
  moreover have "getitem F ''code_dep'' = Inr ?lk"
    using cd take_left_unique[OF fsts refl] by simp
  ultimately show ?thesis using yields_returned[OF y] by blast
qed

theorem referendum_merger_drops_overseas_rows_witness:
  "1 < fresh demo_store \<and> referendum_table (objects demo_store 0) \<and> area_table (objects demo_store 1) \<and>
   (\<exists>F. returned (merge_referendum_and_areas 0 1 demo_store) = Inr F \<and> nrows F = 3 \<and>
      getitem F ''code_dep'' = Inr [StrC ''01'', StrC ''2A'', StrC ''99''])"
proof -
  have u: "\<forall>x\<in>set [IntC 1, StrC ''2A'', StrC ''ZA'', StrC ''99''].
     length (filter (\<lambda>y. norm_code y = norm_code x) [StrC ''01'', StrC ''2A'']) \<le> 1"
    by (simp add: norm_code_simps)
  have n: "nrows (objects demo_store 0) = 4"
    by (simp add: demo_store_def demo_referendum_def nrows_def)
  have o: "overseas (IntC 1) = False" "overseas (StrC ''2A'') = False" "overseas (StrC ''ZA'') = True"
    "overseas (StrC ''99'') = False"
    by (simp_all add: overseas_def norm_code_simps)
  from referendum_merger_drops_overseas_rows[OF demo_tables(7,1,2,3,4) u]
  show ?thesis using demo_tables(7,1,2) by (simp add: n o norm_code_simps)
qed

lemma take_left_nth:
  "k < length idx \<Longrightarrow> take_left idx c ! k = c ! fst (idx ! k)"
  by (simp add: take_left_def case_prod_beta)

lemma take_right_nth:
  "k < length idx \<Longrightarrow>
   take_right idx c ! k = (case snd (idx ! k) of None \<Rightarrow> NaN | Some j \<Rightarrow> c ! j)"
  by (simp add: take_right_def case_prod_beta)

lemma length_take [simp]: "length (take_left idx c) = length idx" "length (take_right idx c) = length idx"
  by (simp_all add: take_left_def take_right_def)

lemma keep_subset: "set (keep m xs) \<subseteq> set xs"
  by (auto simp: keep_def dest: set_zip_rightD)

lemma keep_zip: "keep m (zip xs ys) = zip (keep m xs) (keep m ys)"
proof (induction m arbitrary: xs ys)
  case Nil
  show ?case by (simp add: keep_def)
next
  case (Cons b m)
  show ?case
  proof (cases xs)
    case Nil
    then show ?thesis by (simp add: keep_def)
  next
    case xs: (Cons x xs')
    show ?thesis
    proof (cases ys)
      case Nil
      then show ?thesis by (simp add: keep_def)
    next
      case (Cons y ys')
      with xs Cons.IH[of xs' ys'] show ?thesis by (simp add: keep_def)
    qed
  qed
qed

lemma length_keep: "length xs = length ys \<Longrightarrow> length (keep m xs) = length (keep m ys)"
proof (induction m arbitrary: xs ys)
  case Nil
  show ?case by (simp add: keep_def)
next
  case (Cons b m)
  then show ?case by (cases xs; cases ys) (auto simp: keep_def)
qed

section \<open>The rows of a left join\<close>

lemma take_left_indexer:
  "take_left (left_indexer lk rk) c =
   concat (map (\<lambda>i. replicate (max 1 (length (matches rk (lk ! i)))) (c ! i)) [0..<length lk])"
proof -
  have "map (\<lambda>(i, j). c ! i)
          (case matches rk v of [] \<Rightarrow> [(i, None)] | j # js \<Rightarrow> map (\<lambda>j'. (i, Some j')) (j # js)) =
        replicate (max 1 (length (matches rk v))) (c ! i)" for i v
    by (cases "matches rk v") (simp_all add: comp_def map_replicate_const)
  then show ?thesis
    by (simp add: take_left_def left_indexer_def map_concat comp_def)
qed

lemma take_right_indexer:
  "take_right (left_indexer lk rk) c =
   concat (map (\<lambda>i. case map (\<lambda>j. c ! j) (matches rk (lk ! i)) of [] \<Rightarrow> [NaN] | ms \<Rightarrow> ms)
             [0..<length lk])"
proof -
  have "map (\<lambda>(i, j). case j of None \<Rightarrow> NaN | Some j' \<Rightarrow> c ! j')
          (case matches rk v of [] \<Rightarrow> [(i, None)] | j # js \<Rightarrow> map (\<lambda>j'. (i, Some j')) (j # js)) =
        (case map (\<lambda>j. c ! j) (matches rk v) of [] \<Rightarrow> [NaN] | ms \<Rightarrow> ms)" for i :: nat and v
    by (cases "matches rk v") (simp_all add: comp_def)
  then show ?thesis
    by (simp add: take_right_def left_indexer_def map_concat comp_def)
qed

lemma matched_values:
  assumes "length rk = length c"
  shows "map (\<lambda>j. c ! j) (matches rk v) = map snd (filter (\<lambda>(k, x). k = v) (zip rk c))"
proof -
  have "zip rk c = map (\<lambda>i. (rk ! i, c ! i)) [0..<length rk]"
    using assms by (intro nth_equalityI) simp_all
  then show ?thesis
    by (simp add: matches_def filter_map comp_def)
qed

lemma over_rows: "map (\<lambda>i. h (xs ! i)) [0..<length xs] = map h xs"
  by (intro nth_equalityI) simp_all

lemma over_rows2:
  "length xs = length ys \<Longrightarrow>
   map (\<lambda>i. h (xs ! i) (ys ! i)) [0..<length xs] = map (\<lambda>(x, y). h x y) (zip xs ys)"
  by (intro nth_equalityI) simp_all

lemma keep_map_fst: "keep (map P xs) ys = map snd (filter (\<lambda>(x, y). P x) (zip xs ys))"
  by (simp add: keep_def zip_map1 filter_map comp_def case_prod_unfold)

lemma count_partners:
  "length (matches (map (\<lambda>y. StrC (norm_code y)) ac) (StrC (norm_code x))) =
   length (filter (\<lambda>y. norm_code y = norm_code x) ac)"
  by (simp add: length_matches filter_map comp_def)

text \<open>The key column and the region column of a join on the normalised codes.\<close>

lemma joined_codes:
  "take_left (join_rows codes ac) (map (\<lambda>x. StrC (norm_code x)) (filter (\<lambda>x. \<not> overseas x) codes)) =
   concat (map (\<lambda>x. replicate (max 1 (length (filter (\<lambda>y. norm_code y = norm_code x) ac)))
                       (StrC (norm_code x)))
             (filter (\<lambda>x. \<not> overseas x) codes))"
proof -
  let ?sv = "filter (\<lambda>x. \<not> overseas x) codes"
  let ?lk = "map (\<lambda>x. StrC (norm_code x)) ?sv"
  let ?rk = "map (\<lambda>x. StrC (norm_code x)) ac"
  have "take_left (left_indexer ?lk ?rk) ?lk =
        concat (map (\<lambda>v. replicate (max 1 (length (matches ?rk v))) v) ?lk)"
    unfolding take_left_indexer
    using over_rows[of "\<lambda>v. replicate (max 1 (length (matches ?rk v))) v" ?lk] by simp
  then show ?thesis
    by (simp add: join_rows_def comp_def count_partners)
qed

lemma joined_left:
  assumes "length c = length codes"
  shows "take_left (join_rows codes ac) (keep (map (\<lambda>x. \<not> overseas x) codes) c) =
   concat (map (\<lambda>(x, v). replicate (max 1 (length (filter (\<lambda>y. norm_code y = norm_code x) ac))) v)
             (filter (\<lambda>(x, v). \<not> overseas x) (zip codes c)))"
proof -
  let ?sv = "filter (\<lambda>x. \<not> overseas x) codes"
  let ?lk = "map (\<lambda>x. StrC (norm_code x)) ?sv"
  let ?rk = "map (\<lambda>x. StrC (norm_code x)) ac"
  let ?kc = "keep (map (\<lambda>x. \<not> overseas x) codes) c"
  let ?rows = "filter (\<lambda>(x, v). \<not> overseas x) (zip codes c)"
  have l: "length ?sv = length ?kc"
    using length_keep_map[of codes c "\<lambda>x. \<not> overseas x"] assms by simp
  have z: "zip ?sv ?kc = ?rows"
  proof -
    have "zip ?sv ?kc = zip (keep (map (\<lambda>x. \<not> overseas x) codes) codes) ?kc"
      using keep_map[of "\<lambda>x. \<not> overseas x" codes "\<lambda>x. x"] by simp
    also have "\<dots> = keep (map (\<lambda>x. \<not> overseas x) codes) (zip codes c)"
      by (simp add: keep_zip)
    also have "\<dots> = map snd (filter (\<lambda>(x, y). \<not> overseas x) (zip codes (zip codes c)))"
      by (rule keep_map_fst)
    also have "zip codes (zip codes c) = map (\<lambda>(x, v). (x, (x, v))) (zip codes c)"
      using assms by (intro nth_equalityI) simp_all
    also have "map snd (filter (\<lambda>(x, y). \<not> overseas x) (map (\<lambda>(x, v). (x, (x, v))) (zip codes c))) = ?rows"
      by (simp add: filter_map comp_def case_prod_unfold)
    finally show ?thesis .
  qed
  have "take_left (left_indexer ?lk ?rk) ?kc =
        concat (map (\<lambda>i. replicate (max 1 (length (matches ?rk (StrC (norm_code (?sv ! i)))))) (?kc ! i))
                  [0..<length ?sv])"
    unfolding take_left_indexer
    by (intro arg_cong[where f = concat] map_cong) simp_all
  also have "\<dots> = concat (map (\<lambda>(x, v). replicate (max 1 (length (matches ?rk (StrC (norm_code x))))) v)
                       (zip ?sv ?kc))"
    using over_rows2[OF l, of "\<lambda>x v. replicate (max 1 (length (matches ?rk (StrC (norm_code x))))) v"]
    by simp
  finally show ?thesis
    by (simp add: join_rows_def z count_partners)
qed

lemma joined_right:
  assumes "length c = length ac"
  shows "take_right (join_rows codes ac) c =
   concat (map (\<lambda>x. case map snd (filter (\<lambda>(y, r). norm_code y = norm_code x) (zip ac c)) of
                       [] \<Rightarrow> [NaN] | rs \<Rightarrow> rs)
             (filter (\<lambda>x. \<not> overseas x) codes))"
proof -
  let ?sv = "filter (\<lambda>x. \<not> overseas x) codes"
  let ?lk = "map (\<lambda>x. StrC (norm_code x)) ?sv"
  let ?rk = "map (\<lambda>x. StrC (norm_code x)) ac"
  have m: "map (\<lambda>j. c ! j) (matches ?rk (StrC (norm_code x))) =
           map snd (filter (\<lambda>(y, r). norm_code y = norm_code x) (zip ac c))" for x
  proof -
    have "map (\<lambda>j. c ! j) (matches ?rk (StrC (norm_code x))) =
          map snd (filter (\<lambda>(k, r). k = StrC (norm_code x)) (zip ?rk c))"
      by (rule matched_values) (simp add: assms)
    then show ?thesis
      by (simp add: zip_map1 filter_map comp_def case_prod_unfold)
  qed
  have "take_right (left_indexer ?lk ?rk) c =
        concat (map (\<lambda>v. case map (\<lambda>j. c ! j) (matches ?rk v) of [] \<Rightarrow> [NaN] | ms \<Rightarrow> ms) ?lk)"
    unfolding take_right_indexer
    using over_rows[of "\<lambda>v. case map (\<lambda>j. c ! j) (matches ?rk v) of [] \<Rightarrow> [NaN] | ms \<Rightarrow> ms" ?lk]
    by simp
  then show ?thesis
    by (simp add: join_rows_def comp_def m)
qed

section \<open>The table the referendum merger returns\<close>

lemma labels_added:
  "labels (setitem (setitem R ''code_dep'' u) ''name_dep'' v) =
   labels R @ filter (\<lambda>l. l \<notin> set (labels R)) [''code_dep'', ''name_dep'']"
  by (simp add: labels_setitem)

lemma mra_table:
  fixes s :: store
  assumes live: "d < fresh s"
    and R: "referendum_table (objects s r)" and A: "area_table (objects s d)"
    and c1: "getitem (objects s r) ''Department code'' = Inr c1"
    and ac: "getitem (objects s d) ''code_dep'' = Inr ac"
  obtains F nm creg nreg where
    "yields (merge_referendum_and_areas r d) s F"
    "getitem (objects s r) ''Department name'' = Inr nm"
    "getitem (objects s d) ''code_reg'' = Inr creg"
    "getitem (objects s d) ''name_reg'' = Inr nreg"
    "nrows F = length (join_rows c1 ac)" "index_name F = None" "wf_frame F"
    "labels F = labels (objects s r) @
       filter (\<lambda>l. l \<notin> set (labels (objects s r))) [''code_dep'', ''name_dep''] @
       [''code_reg'', ''name_reg'']"
    "distinct (labels F)"
    "getitem F ''code_dep'' =
       Inr (take_left (join_rows c1 ac) (map (\<lambda>x. StrC (norm_code x)) (filter (\<lambda>x. \<not> overseas x) c1)))"
    "getitem F ''name_dep'' = Inr (take_left (join_rows c1 ac) (keep (map (\<lambda>x. \<not> overseas x) c1) nm))"
    "getitem F ''code_reg'' = Inr (take_right (join_rows c1 ac) creg)"
    "getitem F ''name_reg'' = Inr (take_right (join_rows c1 ac) nreg)"
    "\<And>l c. l \<noteq> ''code_dep'' \<Longrightarrow> l \<noteq> ''name_dep'' \<Longrightarrow> getitem (objects s r) l = Inr c \<Longrightarrow>
       getitem F l = Inr (take_left (join_rows c1 ac) (keep (map (\<lambda>x. \<not> overseas x) c1) c))"
proof -
  let ?R = "objects s r" and ?A = "objects s d"
  let ?idx = "join_rows c1 ac"
  let ?msk = "map (\<lambda>x. \<not> overseas x) c1"
  let ?n = "map (\<lambda>x. StrC (norm_code x)) c1"
  from R have "''Department name'' \<in> set (labels ?R)" by (simp add: referendum_table_def)
  then obtain nm where nm: "getitem ?R ''Department name'' = Inr nm"
    using labels_getitem by blast
  from A have lA: "labels ?A = [''code_reg'', ''name_reg'', ''code_dep'', ''name_dep'']"
    by (simp add: area_table_def)
  then obtain creg nreg where creg: "getitem ?A ''code_reg'' = Inr creg"
    and nreg: "getitem ?A ''name_reg'' = Inr nreg"
    using labels_getitem[of "''code_reg''" ?A] labels_getitem[of "''name_reg''" ?A] by auto
  define L1 where "L1 = setitem (setitem ?R ''code_dep'' ?n) ''name_dep'' nm"
  define F where "F = \<lparr>index_name = None, index = range_index (length ?idx),
      columns = map (\<lambda>(l, c). (l, take_left ?idx (keep ?msk c))) (columns L1) @
        [(''code_reg'', take_right ?idx creg), (''name_reg'', take_right ?idx nreg)]\<rparr>"
  have y: "yields (merge_referendum_and_areas r d) s F"
    unfolding F_def L1_def by (rule mra_yields[OF live R A c1 nm creg nreg ac])
  from R have dR: "distinct (labels ?R)"
    and av: "list_all (\<lambda>l. l \<notin> {''code_reg'', ''name_reg'', ''name_dep_x'', ''name_dep_y''}) (labels ?R)"
    by (simp_all add: referendum_table_def)
  have labL1: "set (labels L1) = set (labels ?R) \<union> {''code_dep'', ''name_dep''}"
    by (auto simp: L1_def labels_setitem)
  have dL1: "distinct (labels L1)"
    unfolding L1_def by (intro distinct_labels_setitem dR)
  from av have avoid: "''name_dep_x'' \<notin> set (labels L1)" "''name_dep_y'' \<notin> set (labels L1)"
    "''code_reg'' \<notin> set (labels L1)" "''name_reg'' \<notin> set (labels L1)"
    by (auto simp: labL1 list_all_iff)
  have g1: "getitem L1 ''code_dep'' = Inr ?n"
    by (simp add: L1_def getitem_setitem_other getitem_setitem_same)
  have g2: "getitem L1 ''name_dep'' = Inr nm"
    by (simp add: L1_def getitem_setitem_same)
  have labF: "labels F = labels L1 @ [''code_reg'', ''name_reg'']"
    unfolding F_def by (simp add: labels_mapped)
  show thesis
  proof (rule that[OF y nm creg nreg])
    show "nrows F = length ?idx" by (simp add: F_def nrows_def)
    show "index_name F = None" by (simp add: F_def)
    show "wf_frame F" by (auto simp: F_def wf_frame_def list_all_iff)
    show "labels F = labels ?R @ filter (\<lambda>l. l \<notin> set (labels ?R)) [''code_dep'', ''name_dep''] @
       [''code_reg'', ''name_reg'']"
      unfolding labF L1_def labels_added by simp
    show "getitem F ''code_dep'' =
       Inr (take_left ?idx (map (\<lambda>x. StrC (norm_code x)) (filter (\<lambda>x. \<not> overseas x) c1)))"
      unfolding F_def using getitem_mapped[OF g1] by (simp add: keep_map)
    show "getitem F ''name_dep'' = Inr (take_left ?idx (keep ?msk nm))"
      unfolding F_def by (rule getitem_mapped[OF g2])
    show "getitem F ''code_reg'' = Inr (take_right ?idx creg)"
      unfolding F_def by (simp add: getitem_appended[OF avoid(3)])
    show "getitem F ''name_reg'' = Inr (take_right ?idx nreg)"
      unfolding F_def by (simp add: getitem_appended[OF avoid(4)])
    show "distinct (labels F)" using dL1 avoid by (simp add: labF)
    show "getitem F l = Inr (take_left ?idx (keep ?msk c))"
      if "l \<noteq> ''code_dep''" "l \<noteq> ''name_dep''" "getitem ?R l = Inr c" for l c
    proof -
      have "getitem L1 l = Inr c" using that by (simp add: L1_def getitem_setitem_other)
      then show ?thesis unfolding F_def by (rule getitem_mapped)
    qed
  qed
qed

lemma demo_overseas:
  "overseas (IntC 1) = False" "overseas (StrC ''2A'') = False" "overseas (StrC ''ZA'') = True"
  "overseas (StrC ''99'') = False"
  by (simp_all add: overseas_def norm_code_simps)

lemma demo_labels:
  "labels (objects demo_store 0) =
     [''Department code'', ''Department name'', ''Registered'', ''Abstentions'', ''Null'',
      ''Choice A'', ''Choice B'']"
  by (simp add: demo_store_def demo_referendum_def labels_def)

text \<open>
  C6. Before the join the department codes of both sides are turned into strings and padded
  with zeros to at least two characters, and the join compares the padded strings. The
  result is given exactly: each referendum row that is kept appears once for every area row
  with the same padded code, and once when there is none; its \<^verbatim>\<open>code_dep\<close> is its
  padded code and its \<^verbatim>\<open>code_reg\<close> the region code of that area row, or missing. So the
  integer 1 of the referendum side meets \<^verbatim>\<open>01\<close> of the area side.
\<close>

theorem codes_are_normalised_before_the_join:
  fixes s :: store
  assumes "areas < fresh s"
    and "referendum_table (objects s referendum)" and "area_table (objects s areas)"
    and "getitem (objects s referendum) ''Department code'' = Inr codes"
    and "getitem (objects s areas) ''code_dep'' = Inr area_codes"
    and "getitem (objects s areas) ''code_reg'' = Inr area_regions"
  shows "\<exists>F. returned (merge_referendum_and_areas referendum areas s) = Inr F \<and>
     getitem F ''code_dep'' =
       Inr (concat (map (\<lambda>x. replicate
                           (max 1 (length (filter (\<lambda>y. zfill 2 (text_of y) = zfill 2 (text_of x))
                                             area_codes)))
                           (StrC (zfill 2 (text_of x))))
                      (filter (\<lambda>x. \<not> contains ''Z'' (zfill 2 (text_of x))) codes))) \<and>
     getitem F ''code_reg'' =
       Inr (concat (map (\<lambda>x. case map snd (filter (\<lambda>(y, r). zfill 2 (text_of y) = zfill 2 (text_of x))
                                               (zip area_codes area_regions)) of
                                [] \<Rightarrow> [NaN]
                              | rs \<Rightarrow> rs)
                      (filter (\<lambda>x. \<not> contains ''Z'' (zfill 2 (text_of x))) codes))) \<and>
     nrows F =
       sum_list (map (\<lambda>x. max 1 (length (filter (\<lambda>y. zfill 2 (text_of y) = zfill 2 (text_of x))
                                             area_codes)))
                   (filter (\<lambda>x. \<not> contains ''Z'' (zfill 2 (text_of x))) codes)) \<and>
     (\<forall>x. 2 \<le> length (zfill 2 (text_of x)))"
proof -
  from mra_table[OF assms(1-5)] obtain F creg where
    y: "yields (merge_referendum_and_areas referendum areas) s F"
    and cr0: "getitem (objects s areas) ''code_reg'' = Inr creg"
    and n: "nrows F = length (join_rows codes area_codes)"
    and cd: "getitem F ''code_dep'' =
       Inr (take_left (join_rows codes area_codes)
              (map (\<lambda>x. StrC (norm_code x)) (filter (\<lambda>x. \<not> overseas x) codes)))"
    and cr: "getitem F ''code_reg'' = Inr (take_right (join_rows codes area_codes) creg)"
    by metis
  from cr0 assms(6) have creg: "creg = area_regions" by simp
  from assms(3) have wfA: "wf_frame (objects s areas)" by (simp add: area_table_def)
  have len: "length area_regions = length area_codes"
    using getitem_length[OF wfA assms(5)] getitem_length[OF wfA assms(6)] by simp
  have n': "nrows F = length (take_left (join_rows codes area_codes)
              (map (\<lambda>x. StrC (norm_code x)) (filter (\<lambda>x. \<not> overseas x) codes)))"
    by (simp add: n)
  have "returned (merge_referendum_and_areas referendum areas s) = Inr F"
    by (rule yields_returned[OF y])
  moreover have "getitem F ''code_dep'' =
       Inr (concat (map (\<lambda>x. replicate
                           (max 1 (length (filter (\<lambda>y. norm_code y = norm_code x) area_codes)))
                           (StrC (norm_code x)))
                      (filter (\<lambda>x. \<not> overseas x) codes)))"
    using cd by (simp only: joined_codes)
  moreover have "getitem F ''code_reg'' =
       Inr (concat (map (\<lambda>x. case map snd (filter (\<lambda>(y, r). norm_code y = norm_code x)
                                               (zip area_codes area_regions)) of
                                [] \<Rightarrow> [NaN]
                              | rs \<Rightarrow> rs)
                      (filter (\<lambda>x. \<not> overseas x) codes)))"
    using cr unfolding creg by (simp only: joined_right[OF len])
  moreover have "nrows F =
       sum_list (map (\<lambda>x. max 1 (length (filter (\<lambda>y. norm_code y = norm_code x) area_codes)))
                   (filter (\<lambda>x. \<not> overseas x) codes))"
    unfolding n' joined_codes by (simp add: length_concat comp_def)
  moreover have "\<forall>x. 2 \<le> length (norm_code x)"
    by (simp add: norm_code_def length_zfill)
  ultimately show ?thesis
    unfolding norm_code_def overseas_def by blast
qed

theorem codes_are_normalised_before_the_join_witness:
  "1 < fresh demo_store \<and> referendum_table (objects demo_store 0) \<and>
   area_table (objects demo_store 1) \<and>
   getitem (objects demo_store 0) ''Department code'' =
     Inr [IntC 1, StrC ''2A'', StrC ''ZA'', StrC ''99''] \<and>
   getitem (objects demo_store 1) ''code_dep'' = Inr [StrC ''01'', StrC ''2A''] \<and>
   getitem (objects demo_store 1) ''code_reg'' = Inr [StrC ''84'', StrC ''94''] \<and>
   (\<exists>F. returned (merge_referendum_and_areas 0 1 demo_store) = Inr F \<and>
      getitem F ''code_dep'' = Inr [StrC ''01'', StrC ''2A'', StrC ''99''] \<and>
      getitem F ''code_reg'' = Inr [StrC ''84'', StrC ''94'', NaN] \<and>
      nrows F = 3)"
proof -
  have o: "contains ''Z'' (zfill 2 (text_of (IntC 1))) = False"
    "contains ''Z'' (zfill 2 (text_of (StrC ''2A''))) = False"
    "contains ''Z'' (zfill 2 (text_of (StrC ''ZA''))) = True"
    "contains ''Z'' (zfill 2 (text_of (StrC ''99''))) = False"
    using demo_overseas by (simp_all add: overseas_def norm_code_def)
  have z: "zfill 2 (text_of (IntC 1)) = ''01''" "zfill 2 (text_of (StrC ''2A'')) = ''2A''"
    "zfill 2 (text_of (StrC ''99'')) = ''99''" "zfill 2 (text_of (StrC ''01'')) = ''01''"
    using norm_code_simps by (simp_all add: norm_code_def)
  from codes_are_normalised_before_the_join[OF demo_tables(7,1,2,3,4,6)]
  have "\<exists>F. returned (merge_referendum_and_areas 0 1 demo_store) = Inr F \<and>
      getitem F ''code_dep'' = Inr [StrC ''01'', StrC ''2A'', StrC ''99''] \<and>
      getitem F ''code_reg'' = Inr [StrC ''84'', StrC ''94'', NaN] \<and>
      nrows F = 3"
    by (auto simp: o z numeral_3_eq_3)
  with demo_tables show ?thesis by blast
qed

lemma mra_names:
  fixes s :: store
  assumes "areas < fresh s"
    and "referendum_table (objects s referendum)" and "area_table (objects s areas)"
    and "getitem (objects s referendum) ''Department code'' = Inr codes"
    and "getitem (objects s areas) ''code_dep'' = Inr area_codes"
    and "getitem (objects s referendum) ''Department name'' = Inr names"
  shows "\<exists>F. returned (merge_referendum_and_areas referendum areas s) = Inr F \<and>
     labels F = labels (objects s referendum) @
       filter (\<lambda>l. l \<notin> set (labels (objects s referendum))) [''code_dep'', ''name_dep''] @
       [''code_reg'', ''name_reg''] \<and>
     distinct (labels F) \<and>
     getitem F ''name_dep'' =
       Inr (concat (map (\<lambda>(x, n). replicate
                           (max 1 (length (filter (\<lambda>y. norm_code y = norm_code x) area_codes))) n)
                      (filter (\<lambda>(x, n). \<not> overseas x) (zip codes names)))) \<and>
     getitem F ''Department name'' =
       Inr (concat (map (\<lambda>(x, n). replicate
                           (max 1 (length (filter (\<lambda>y. norm_code y = norm_code x) area_codes))) n)
                      (filter (\<lambda>(x, n). \<not> overseas x) (zip codes names)))) \<and>
     nrows F =
       sum_list (map (\<lambda>x. max 1 (length (filter (\<lambda>y. norm_code y = norm_code x) area_codes)))
                   (filter (\<lambda>x. \<not> overseas x) codes))"
proof (rule mra_table[OF assms(1-5)])
  let ?msk = "map (\<lambda>x. \<not> overseas x) codes"
  let ?N = "concat (map (\<lambda>(x, n). replicate
                           (max 1 (length (filter (\<lambda>y. norm_code y = norm_code x) area_codes))) n)
                      (filter (\<lambda>(x, n). \<not> overseas x) (zip codes names)))"
  fix F nm
  assume y: "yields (merge_referendum_and_areas referendum areas) s F"
    and nm0: "getitem (objects s referendum) ''Department name'' = Inr nm"
    and n: "nrows F = length (join_rows codes area_codes)"
    and lab1: "labels F = labels (objects s referendum) @
       filter (\<lambda>l. l \<notin> set (labels (objects s referendum))) [''code_dep'', ''name_dep''] @
       [''code_reg'', ''name_reg'']"
    and lab2: "distinct (labels F)"
    and nd: "getitem F ''name_dep'' = Inr (take_left (join_rows codes area_codes) (keep ?msk nm))"
    and other: "\<And>l c. l \<noteq> ''code_dep'' \<Longrightarrow> l \<noteq> ''name_dep'' \<Longrightarrow>
       getitem (objects s referendum) l = Inr c \<Longrightarrow>
       getitem F l = Inr (take_left (join_rows codes area_codes) (keep ?msk c))"
  from nm0 assms(6) have nm: "nm = names" by simp
  from assms(2) have wf: "wf_frame (objects s referendum)" by (simp add: referendum_table_def)
  have len: "length names = length codes"
    using getitem_length[OF wf assms(4)] getitem_length[OF wf assms(6)] by simp
  have dn: "getitem F ''Department name'' =
      Inr (take_left (join_rows codes area_codes) (keep ?msk names))"
    by (rule other[OF _ _ assms(6)]) simp_all
  have n': "nrows F = length (take_left (join_rows codes area_codes)
              (map (\<lambda>x. StrC (norm_code x)) (filter (\<lambda>x. \<not> overseas x) codes)))"
    by (simp add: n)
  have rows: "nrows F =
       sum_list (map (\<lambda>x. max 1 (length (filter (\<lambda>y. norm_code y = norm_code x) area_codes)))
                   (filter (\<lambda>x. \<not> overseas x) codes))"
    unfolding n' joined_codes by (simp add: length_concat comp_def)
  have nd': "getitem F ''name_dep'' = Inr ?N"
    using nd unfolding nm by (simp only: joined_left[OF len])
  have dn': "getitem F ''Department name'' = Inr ?N"
    using dn by (simp only: joined_left[OF len])
  show "\<exists>F. returned (merge_referendum_and_areas referendum areas s) = Inr F \<and>
     labels F = labels (objects s referendum) @
       filter (\<lambda>l. l \<notin> set (labels (objects s referendum))) [''code_dep'', ''name_dep''] @
       [''code_reg'', ''name_reg''] \<and>
     distinct (labels F) \<and>
     getitem F ''name_dep'' = Inr ?N \<and> getitem F ''Department name'' = Inr ?N \<and>
     nrows F =
       sum_list (map (\<lambda>x. max 1 (length (filter (\<lambda>y. norm_code y = norm_code x) area_codes)))
                   (filter (\<lambda>x. \<not> overseas x) codes))"
    by (intro exI[of _ F] conjI yields_returned[OF y] lab1 lab2 nd' dn' rows)
qed

text \<open>
  C7. The join gives the two sides' \<^verbatim>\<open>name_dep\<close> columns the suffixes \<^verbatim>\<open>_x\<close> and
  \<^verbatim>\<open>_y\<close>; the area side's is dropped and the referendum side's gets its name back. The
  result has the labels of the referendum table, then \<^verbatim>\<open>code_dep\<close> and \<^verbatim>\<open>name_dep\<close>
  (unless it had them), then \<^verbatim>\<open>code_reg\<close> and \<^verbatim>\<open>name_reg\<close>: one column
  \<^verbatim>\<open>name_dep\<close>, none with a suffix. In every row \<^verbatim>\<open>name_dep\<close> is the
  \<^verbatim>\<open>Department name\<close> of the referendum row the row comes from. The column
  \<^verbatim>\<open>Department name\<close> itself is still there, with the same values: the department name
  is carried by two columns, not one.
\<close>

theorem name_dep_is_the_referendum_side_name:
  fixes s :: store
  assumes "areas < fresh s"
    and "referendum_table (objects s referendum)" and "area_table (objects s areas)"
    and "getitem (objects s referendum) ''Department code'' = Inr codes"
    and "getitem (objects s areas) ''code_dep'' = Inr area_codes"
    and "getitem (objects s referendum) ''Department name'' = Inr names"
  shows "\<exists>F. returned (merge_referendum_and_areas referendum areas s) = Inr F \<and>
     labels F = labels (objects s referendum) @
       filter (\<lambda>l. l \<notin> set (labels (objects s referendum))) [''code_dep'', ''name_dep''] @
       [''code_reg'', ''name_reg''] \<and>
     distinct (labels F) \<and>
     getitem F ''name_dep'' =
       Inr (concat (map (\<lambda>(x, n). replicate
                           (max 1 (length (filter (\<lambda>y. norm_code y = norm_code x) area_codes))) n)
                      (filter (\<lambda>(x, n). \<not> overseas x) (zip codes names)))) \<and>
     getitem F ''Department name'' =
       Inr (concat (map (\<lambda>(x, n). replicate
                           (max 1 (length (filter (\<lambda>y. norm_code y = norm_code x) area_codes))) n)
                      (filter (\<lambda>(x, n). \<not> overseas x) (zip codes names)))) \<and>
     nrows F =
       sum_list (map (\<lambda>x. max 1 (length (filter (\<lambda>y. norm_code y = norm_code x) area_codes)))
                   (filter (\<lambda>x. \<not> overseas x) codes))"
  using assms by (rule mra_names)

theorem name_dep_is_the_referendum_side_name_witness:
  "1 < fresh demo_store \<and> referendum_table (objects demo_store 0) \<and>
   area_table (objects demo_store 1) \<and>
   getitem (objects demo_store 0) ''Department name'' =
     Inr [StrC ''AIN'', StrC ''CORSE DU SUD'', StrC ''GUADELOUPE'', StrC ''NOWHERE''] \<and>
   (\<exists>F. returned (merge_referendum_and_areas 0 1 demo_store) = Inr F \<and>
      labels F = [''Department code'', ''Department name'', ''Registered'', ''Abstentions'',
                  ''Null'', ''Choice A'', ''Choice B'', ''code_dep'', ''name_dep'', ''code_reg'',
                  ''name_reg''] \<and>
      getitem F ''name_dep'' = Inr [StrC ''AIN'', StrC ''CORSE DU SUD'', StrC ''NOWHERE''] \<and>
      nrows F = 3)"
proof -
  from name_dep_is_the_referendum_side_name[OF demo_tables(7,1,2,3,4,5)]
  have "\<exists>F. returned (merge_referendum_and_areas 0 1 demo_store) = Inr F \<and>
      labels F = [''Department code'', ''Department name'', ''Registered'', ''Abstentions'',
                  ''Null'', ''Choice A'', ''Choice B'', ''code_dep'', ''name_dep'', ''code_reg'',
                  ''name_reg''] \<and>
      getitem F ''name_dep'' = Inr [StrC ''AIN'', StrC ''CORSE DU SUD'', StrC ''NOWHERE''] \<and>
      nrows F = 3"
    by (auto simp: demo_overseas norm_code_simps demo_labels numeral_3_eq_3)
  with demo_tables show ?thesis by blast
qed

text \<open>
  The merged example table carries the department names twice, under
  \<^verbatim>\<open>Department name\<close> and under \<^verbatim>\<open>name_dep\<close>.
\<close>

theorem two_columns_carry_the_department_name:
  "\<exists>F. returned (merge_referendum_and_areas 0 1 demo_store) = Inr F \<and>
     filter (\<lambda>l. l \<in> {''Department name'', ''name_dep'', ''name_dep_x'', ''name_dep_y''}) (labels F) =
       [''Department name'', ''name_dep''] \<and>
     getitem F ''Department name'' = Inr [StrC ''AIN'', StrC ''CORSE DU SUD'', StrC ''NOWHERE''] \<and>
     getitem F ''name_dep'' = Inr [StrC ''AIN'', StrC ''CORSE DU SUD'', StrC ''NOWHERE'']"
proof -
  from mra_names[OF demo_tables(7,1,2,3,4,5)]
  obtain F where F: "returned (merge_referendum_and_areas 0 1 demo_store) = Inr F"
    "labels F = [''Department code'', ''Department name'', ''Registered'', ''Abstentions'',
                  ''Null'', ''Choice A'', ''Choice B'', ''code_dep'', ''name_dep'', ''code_reg'',
                  ''name_reg'']"
    "getitem F ''Department name'' = Inr [StrC ''AIN'', StrC ''CORSE DU SUD'', StrC ''NOWHERE'']"
    "getitem F ''name_dep'' = Inr [StrC ''AIN'', StrC ''CORSE DU SUD'', StrC ''NOWHERE'']"
    by (auto simp: demo_overseas norm_code_simps demo_labels)
  have "filter (\<lambda>l. l \<in> {''Department name'', ''name_dep'', ''name_dep_x'', ''name_dep_y''})
          (labels F) = [''Department name'', ''name_dep'']"
    by (simp add: F(2))
  with F show ?thesis by blast
qed

section \<open>Groups and their aggregates\<close>

lemma set_group_values: "set (group_values k ks c) \<subseteq> set c"
  by (auto simp: group_values_def dest: set_zip_rightD)

lemma sum_ok:
  assumes "list_all is_count c"
  shows "traverse (\<lambda>k. aggregate Sum (group_values k ks c)) gs =
         Inr (map (\<lambda>k. IntC (sum_list (map int_of (group_values k ks c)))) gs)"
proof -
  have "list_all is_count (group_values k ks c)" for k
    using assms set_group_values[of k ks c] by (auto simp: list_all_iff)
  then have "traverse (\<lambda>k. aggregate Sum (group_values k ks c)) gs =
        traverse (\<lambda>k. Inr (IntC (sum_list (map int_of (group_values k ks c))))) gs"
    by (intro traverse_cong) (simp add: agg_sum_def)
  then show ?thesis by (simp add: traverse_map_Inr)
qed

lemma first_ok:
  "traverse (\<lambda>k. aggregate First (group_values k ks c)) gs =
   Inr (map (\<lambda>k. agg_first (group_values k ks c)) gs)"
  by (simp add: traverse_map_Inr)

lemma compute_result:
  assumes kv: "key_values f ''code_reg'' = Inr ks"
    and nm: "getitem f ''name_reg'' = Inr nm"
    and g: "getitem f ''Registered'' = Inr v1" "getitem f ''Abstentions'' = Inr v2"
      "getitem f ''Null'' = Inr v3" "getitem f ''Choice A'' = Inr v4"
      "getitem f ''Choice B'' = Inr v5"
    and c: "list_all is_count v1" "list_all is_count v2" "list_all is_count v3"
      "list_all is_count v4" "list_all is_count v5"
  shows "groupby_agg f ''code_reg''
       [(''name_reg'', ''name_reg'', First),
        (''Registered'', ''Registered'', Sum),
        (''Abstentions'', ''Abstentions'', Sum),
        (''Null'', ''Null'', Sum),
        (''Choice A'', ''Choice A'', Sum),
        (''Choice B'', ''Choice B'', Sum)] =
     Inr \<lparr>index_name = Some ''code_reg'', index = group_keys ks,
          columns =
            [(''name_reg'', map (\<lambda>k. agg_first (group_values k ks nm)) (group_keys ks)),
             (''Registered'', map (\<lambda>k. IntC (sum_list (map int_of (group_values k ks v1)))) (group_keys ks)),
             (''Abstentions'', map (\<lambda>k. IntC (sum_list (map int_of (group_values k ks v2)))) (group_keys ks)),
             (''Null'', map (\<lambda>k. IntC (sum_list (map int_of (group_values k ks v3)))) (group_keys ks)),
             (''Choice A'', map (\<lambda>k. IntC (sum_list (map int_of (group_values k ks v4)))) (group_keys ks)),
             (''Choice B'', map (\<lambda>k. IntC (sum_list (map int_of (group_values k ks v5)))) (group_keys ks))]\<rparr>"
  by (simp add: groupby_agg_def kv nm g first_ok sum_ok[OF c(1)] sum_ok[OF c(2)] sum_ok[OF c(3)]
      sum_ok[OF c(4)] sum_ok[OF c(5)] del: aggregate.simps)

lemma counts_inD:
  assumes "counts_in f"
  obtains v1 v2 v3 v4 v5 where
    "getitem f ''Registered'' = Inr v1" "getitem f ''Abstentions'' = Inr v2"
    "getitem f ''Null'' = Inr v3" "getitem f ''Choice A'' = Inr v4"
    "getitem f ''Choice B'' = Inr v5"
    "list_all is_count v1" "list_all is_count v2" "list_all is_count v3"
    "list_all is_count v4" "list_all is_count v5"
  using assms unfolding counts_in_def count_columns_def
  by (auto split: sum.splits)

lemma distinct_group_keys: "distinct (group_keys ks)"
  by (simp add: group_keys_def)

lemma sorted_group_keys: "sorted (map cell_key (group_keys ks))"
  by (simp add: group_keys_def)

lemma set_group_keys: "set (group_keys ks) = set ks - {NaN}"
  by (auto simp: group_keys_def)

lemma group_values_rows:
  assumes "length ks = length c"
  shows "group_values k ks c = map (\<lambda>i. c ! i) (filter (\<lambda>i. ks ! i = k) [0..<length ks])"
proof -
  have "zip ks c = map (\<lambda>i. (ks ! i, c ! i)) [0..<length ks]"
    using assms by (intro nth_equalityI) simp_all
  then show ?thesis
    by (simp add: group_values_def filter_map comp_def)
qed

lemma sum_group_values:
  assumes "length ks = length c"
  shows "sum_list (map int_of (group_values k ks c)) =
         (\<Sum>i\<in>{i. i < length ks \<and> ks ! i = k}. int_of (c ! i))"
proof -
  have "sum_list (map int_of (group_values k ks c)) =
        sum_list (map (\<lambda>i. int_of (c ! i)) (filter (\<lambda>i. ks ! i = k) [0..<length ks]))"
    by (simp add: group_values_rows[OF assms] comp_def)
  also have "\<dots> = (\<Sum>i\<in>set (filter (\<lambda>i. ks ! i = k) [0..<length ks]). int_of (c ! i))"
    by (rule sum_list_distinct_conv_sum_set) simp
  also have "set (filter (\<lambda>i. ks ! i = k) [0..<length ks]) = {i. i < length ks \<and> ks ! i = k}"
    by auto
  finally show ?thesis .
qed

lemma filter_upt_first:
  "filter P [0..<n] = i # rest \<Longrightarrow> i < n \<and> P i \<and> (\<forall>j<i. \<not> P j)"
proof (induction n arbitrary: rest)
  case 0
  then show ?case by simp
next
  case (Suc n)
  show ?case
  proof (cases "filter P [0..<n]")
    case Nil
    with Suc.prems have "P n" "i = n" by (auto split: if_splits)
    moreover from Nil have "\<forall>j<n. \<not> P j" by (auto simp: filter_empty_conv)
    ultimately show ?thesis by simp
  next
    case (Cons a as)
    with Suc.prems have "a = i" by (auto split: if_splits)
    with Suc.IH[of as] Cons show ?thesis by auto
  qed
qed

lemma agg_first_rows:
  assumes "length ks = length c"
  shows "(\<exists>i<length ks. ks ! i = k \<and> c ! i \<noteq> NaN \<and> agg_first (group_values k ks c) = c ! i \<and>
            (\<forall>j<i. ks ! j = k \<longrightarrow> c ! j = NaN)) \<or>
         ((\<forall>i<length ks. ks ! i = k \<longrightarrow> c ! i = NaN) \<and> agg_first (group_values k ks c) = NaN)"
proof -
  let ?P = "\<lambda>i. ks ! i = k \<and> c ! i \<noteq> NaN"
  have f: "filter (\<lambda>v. v \<noteq> NaN) (group_values k ks c) = map (\<lambda>i. c ! i) (filter ?P [0..<length ks])"
    by (simp add: group_values_rows[OF assms] filter_map comp_def conj_commute)
  show ?thesis
  proof (cases "filter ?P [0..<length ks]")
    case Nil
    then have "\<forall>i<length ks. ks ! i = k \<longrightarrow> c ! i = NaN" by (auto simp: filter_empty_conv)
    moreover have "agg_first (group_values k ks c) = NaN" by (simp add: agg_first_def f Nil)
    ultimately show ?thesis by blast
  next
    case (Cons i rest)
    from filter_upt_first[OF Cons] have "i < length ks" "ks ! i = k" "c ! i \<noteq> NaN"
      "\<forall>j<i. ks ! j = k \<longrightarrow> c ! j = NaN" by auto
    moreover have "agg_first (group_values k ks c) = c ! i" by (simp add: agg_first_def f Cons)
    ultimately show ?thesis by blast
  qed
qed

lemma compute_yields:
  fixes s :: store
  assumes kv: "key_values (objects s r) ''code_reg'' = Inr ks"
    and nm: "getitem (objects s r) ''name_reg'' = Inr nm"
    and g: "getitem (objects s r) ''Registered'' = Inr v1"
      "getitem (objects s r) ''Abstentions'' = Inr v2"
      "getitem (objects s r) ''Null'' = Inr v3" "getitem (objects s r) ''Choice A'' = Inr v4"
      "getitem (objects s r) ''Choice B'' = Inr v5"
    and c: "list_all is_count v1" "list_all is_count v2" "list_all is_count v3"
      "list_all is_count v4" "list_all is_count v5"
  shows "yields (compute_referendum_result_by_regions r) s
     \<lparr>index_name = Some ''code_reg'', index = group_keys ks,
          columns =
            [(''name_reg'', map (\<lambda>k. agg_first (group_values k ks nm)) (group_keys ks)),
             (''Registered'', map (\<lambda>k. IntC (sum_list (map int_of (group_values k ks v1)))) (group_keys ks)),
             (''Abstentions'', map (\<lambda>k. IntC (sum_list (map int_of (group_values k ks v2)))) (group_keys ks)),
             (''Null'', map (\<lambda>k. IntC (sum_list (map int_of (group_values k ks v3)))) (group_keys ks)),
             (''Choice A'', map (\<lambda>k. IntC (sum_list (map int_of (group_values k ks v4)))) (group_keys ks)),
             (''Choice B'', map (\<lambda>k. IntC (sum_list (map int_of (group_values k ks v5)))) (group_keys ks))]\<rparr>"
  unfolding yields_def compute_referendum_result_by_regions_def df_groupby_agg_def
  by (simp add: seq_def deref_def lift_def new_def compute_result[OF kv nm g c])

lemma returned_compute:
  "returned (compute_referendum_result_by_regions a t) =
   groupby_agg (objects t a) ''code_reg''
       [(''name_reg'', ''name_reg'', First),
        (''Registered'', ''Registered'', Sum),
        (''Abstentions'', ''Abstentions'', Sum),
        (''Null'', ''Null'', Sum),
        (''Choice A'', ''Choice A'', Sum),
        (''Choice B'', ''Choice B'', Sum)]"
  unfolding compute_referendum_result_by_regions_def df_groupby_agg_def returned_def
  by (simp add: seq_def deref_def lift_def new_def split: sum.split)

lemma regional_totals:
  assumes "merged_table f"
    and "getitem f ''code_reg'' = Inr codes"
    and "getitem f ''name_reg'' = Inr names"
  shows "\<exists>G out_names. groupby_agg f ''code_reg''
       [(''name_reg'', ''name_reg'', First),
        (''Registered'', ''Registered'', Sum),
        (''Abstentions'', ''Abstentions'', Sum),
        (''Null'', ''Null'', Sum),
        (''Choice A'', ''Choice A'', Sum),
        (''Choice B'', ''Choice B'', Sum)] = Inr G \<and>
     index_name G = Some ''code_reg'' \<and> distinct (index G) \<and> set (index G) = set codes - {NaN} \<and>
     sorted (map cell_key (index G)) \<and> labels G = ''name_reg'' # count_columns \<and>
     getitem G ''name_reg'' = Inr out_names \<and> length out_names = nrows G \<and>
     (\<forall>p<nrows G.
        (\<exists>i<length codes. codes ! i = index G ! p \<and> names ! i \<noteq> NaN \<and> out_names ! p = names ! i \<and>
            (\<forall>j<i. codes ! j = index G ! p \<longrightarrow> names ! j = NaN)) \<or>
        ((\<forall>i<length codes. codes ! i = index G ! p \<longrightarrow> names ! i = NaN) \<and> out_names ! p = NaN)) \<and>
     (\<forall>l\<in>set count_columns. \<exists>vs tot.
         getitem f l = Inr vs \<and> getitem G l = Inr tot \<and> length tot = nrows G \<and>
         (\<forall>p<nrows G. tot ! p =
            IntC (\<Sum>i\<in>{i. i < length codes \<and> codes ! i = index G ! p}. int_of (vs ! i))))"
proof -
  let ?S = "\<lambda>v. map (\<lambda>k. IntC (sum_list (map int_of (group_values k codes v)))) (group_keys codes)"
  from assms(1) have wf: "wf_frame f" and d: "distinct (labels f)" and i: "index_name f = None"
    and cnt: "counts_in f"
    by (simp_all add: merged_table_def)
  from cnt obtain v1 v2 v3 v4 v5 where
    g: "getitem f ''Registered'' = Inr v1" "getitem f ''Abstentions'' = Inr v2"
    "getitem f ''Null'' = Inr v3" "getitem f ''Choice A'' = Inr v4"
    "getitem f ''Choice B'' = Inr v5"
    and c: "list_all is_count v1" "list_all is_count v2" "list_all is_count v3"
    "list_all is_count v4" "list_all is_count v5"
    by (rule counts_inD)
  have kv: "key_values f ''code_reg'' = Inr codes"
    by (rule key_values_getitem[OF d _ assms(2)]) (simp add: i)
  define G where "G = \<lparr>index_name = Some ''code_reg'', index = group_keys codes,
          columns =
            [(''name_reg'', map (\<lambda>k. agg_first (group_values k codes names)) (group_keys codes)),
             (''Registered'', ?S v1), (''Abstentions'', ?S v2), (''Null'', ?S v3),
             (''Choice A'', ?S v4), (''Choice B'', ?S v5)]\<rparr>"
  have y: "groupby_agg f ''code_reg''
       [(''name_reg'', ''name_reg'', First),
        (''Registered'', ''Registered'', Sum),
        (''Abstentions'', ''Abstentions'', Sum),
        (''Null'', ''Null'', Sum),
        (''Choice A'', ''Choice A'', Sum),
        (''Choice B'', ''Choice B'', Sum)] = Inr G"
    unfolding G_def by (rule compute_result[OF kv assms(3) g c])
  have lc: "length codes = nrows f" by (rule getitem_length[OF wf assms(2)])
  have ln: "length codes = length names" using getitem_length[OF wf assms(3)] lc by simp
  have nG: "nrows G = length (group_keys codes)" by (simp add: G_def nrows_def)
  have iG: "index G = group_keys codes" by (simp add: G_def)
  have names: "(\<exists>i<length codes. codes ! i = index G ! p \<and> names ! i \<noteq> NaN \<and>
            map (\<lambda>k. agg_first (group_values k codes names)) (group_keys codes) ! p = names ! i \<and>
            (\<forall>j<i. codes ! j = index G ! p \<longrightarrow> names ! j = NaN)) \<or>
        ((\<forall>i<length codes. codes ! i = index G ! p \<longrightarrow> names ! i = NaN) \<and>
            map (\<lambda>k. agg_first (group_values k codes names)) (group_keys codes) ! p = NaN)"
    if "p < nrows G" for p
    using agg_first_rows[OF ln, of "group_keys codes ! p"] that by (simp add: nG iG)
  have totals: "\<exists>vs tot.
         getitem f l = Inr vs \<and> getitem G l = Inr tot \<and> length tot = nrows G \<and>
         (\<forall>p<nrows G. tot ! p =
            IntC (\<Sum>i\<in>{i. i < length codes \<and> codes ! i = index G ! p}. int_of (vs ! i)))"
    if gl: "getitem f l = Inr v" and gG: "getitem G l = Inr (?S v)" for l v
  proof -
    have lv: "length codes = length v" using getitem_length[OF wf gl] lc by simp
    have "length (?S v) = nrows G" by (simp add: nG)
    moreover have "\<forall>p<nrows G. ?S v ! p =
            IntC (\<Sum>i\<in>{i. i < length codes \<and> codes ! i = index G ! p}. int_of (v ! i))"
      by (simp add: nG iG sum_group_values[OF lv])
    ultimately show ?thesis using gl gG by blast
  qed
  have five: "\<forall>l\<in>set count_columns. \<exists>vs tot.
         getitem f l = Inr vs \<and> getitem G l = Inr tot \<and> length tot = nrows G \<and>
         (\<forall>p<nrows G. tot ! p =
            IntC (\<Sum>i\<in>{i. i < length codes \<and> codes ! i = index G ! p}. int_of (vs ! i)))"
    unfolding count_columns_def
    using totals[OF g(1)] totals[OF g(2)] totals[OF g(3)] totals[OF g(4)] totals[OF g(5)]
    by (simp add: G_def getitem_def)
  have "groupby_agg f ''code_reg''
       [(''name_reg'', ''name_reg'', First),
        (''Registered'', ''Registered'', Sum),
        (''Abstentions'', ''Abstentions'', Sum),
        (''Null'', ''Null'', Sum),
        (''Choice A'', ''Choice A'', Sum),
        (''Choice B'', ''Choice B'', Sum)] = Inr G \<and>
     index_name G = Some ''code_reg'' \<and> distinct (index G) \<and> set (index G) = set codes - {NaN} \<and>
     sorted (map cell_key (index G)) \<and> labels G = ''name_reg'' # count_columns \<and>
     getitem G ''name_reg'' = Inr (map (\<lambda>k. agg_first (group_values k codes names)) (group_keys codes)) \<and>
     length (map (\<lambda>k. agg_first (group_values k codes names)) (group_keys codes)) = nrows G"
    using y
    by (simp add: iG distinct_group_keys set_group_keys nG sorted_group_keys)
      (simp add: G_def getitem_def labels_def count_columns_def)
  with names five show ?thesis by blast
qed

text \<open>
  C3. The regional results are keyed by region code, with one row for each distinct region
  code of the input (a missing code is not a region), in increasing order of the codes; in
  the row of a region each of
  \<^verbatim>\<open>Registered\<close>, \<^verbatim>\<open>Abstentions\<close>, \<^verbatim>\<open>Null\<close>, \<^verbatim>\<open>Choice A\<close> and \<^verbatim>\<open>Choice B\<close> is the
  sum of that column over the input rows of the region, and the name is the first name met
  among these rows (the name of the earliest row of the region that has one).
\<close>

theorem regional_results_sum_each_region:
  fixes s :: store
  assumes "merged_table (objects s merged)"
    and "getitem (objects s merged) ''code_reg'' = Inr codes"
    and "getitem (objects s merged) ''name_reg'' = Inr names"
  shows "\<exists>G out_names. returned (compute_referendum_result_by_regions merged s) = Inr G \<and>
     index_name G = Some ''code_reg'' \<and> distinct (index G) \<and> set (index G) = set codes - {NaN} \<and>
     sorted (map cell_key (index G)) \<and> labels G = ''name_reg'' # count_columns \<and>
     getitem G ''name_reg'' = Inr out_names \<and> length out_names = nrows G \<and>
     (\<forall>p<nrows G.
        (\<exists>i<length codes. codes ! i = index G ! p \<and> names ! i \<noteq> NaN \<and> out_names ! p = names ! i \<and>
            (\<forall>j<i. codes ! j = index G ! p \<longrightarrow> names ! j = NaN)) \<or>
        ((\<forall>i<length codes. codes ! i = index G ! p \<longrightarrow> names ! i = NaN) \<and> out_names ! p = NaN)) \<and>
     (\<forall>l\<in>set count_columns. \<exists>vs tot.
         getitem (objects s merged) l = Inr vs \<and> getitem G l = Inr tot \<and> length tot = nrows G \<and>
         (\<forall>p<nrows G. tot ! p =
            IntC (\<Sum>i\<in>{i. i < length codes \<and> codes ! i = index G ! p}. int_of (vs ! i))))"
  using regional_totals[OF assms] unfolding returned_compute .

lemma demo_merged_table:
  "merged_table (objects demo_merged_store 0)"
  "getitem (objects demo_merged_store 0) ''code_reg'' = Inr [StrC ''84'', StrC ''94'', StrC ''84'', NaN]"
  "getitem (objects demo_merged_store 0) ''name_reg'' =
     Inr [StrC ''Auvergne-Rhone-Alpes'', StrC ''Corse'', StrC ''Auvergne-Rhone-Alpes'', NaN]"
  by (simp_all add: demo_merged_store_def demo_merged_def merged_table_def counts_in_def
      count_columns_def wf_frame_def labels_def getitem_def)

lemma cell_key_le:
  "cell_key (StrC a) \<le> cell_key (StrC b) \<longleftrightarrow> a \<le> b"
  "cell_key (StrC a) \<le> cell_key NaN \<longleftrightarrow> False"
  by (simp_all add: less_eq_prod_def)

lemma demo_group_keys: "group_keys [StrC ''84'', StrC ''94'', StrC ''84'', NaN] = [StrC ''84'', StrC ''94'']"
  by (simp add: group_keys_def cell_key_le)

lemma demo_merged_result:
  "returned (compute_referendum_result_by_regions 0 demo_merged_store) =
   Inr \<lparr>index_name = Some ''code_reg'', index = [StrC ''84'', StrC ''94''],
        columns = [(''name_reg'', [StrC ''Auvergne-Rhone-Alpes'', StrC ''Corse'']),
                   (''Registered'', [IntC 3000, IntC 500]),
                   (''Abstentions'', [IntC 400, IntC 60]),
                   (''Null'', [IntC 30, IntC 5]),
                   (''Choice A'', [IntC 1200, IntC 200]),
                   (''Choice B'', [IntC 1370, IntC 235])]\<rparr>"
proof -
  let ?f = "objects demo_merged_store 0"
  have kv: "key_values ?f ''code_reg'' = Inr [StrC ''84'', StrC ''94'', StrC ''84'', NaN]"
    by (simp add: demo_merged_store_def demo_merged_def key_values_def)
  have g: "getitem ?f ''Registered'' = Inr [IntC 1000, IntC 500, IntC 2000, IntC 10]"
    "getitem ?f ''Abstentions'' = Inr [IntC 100, IntC 60, IntC 300, IntC 1]"
    "getitem ?f ''Null'' = Inr [IntC 10, IntC 5, IntC 20, IntC 0]"
    "getitem ?f ''Choice A'' = Inr [IntC 500, IntC 200, IntC 700, IntC 4]"
    "getitem ?f ''Choice B'' = Inr [IntC 390, IntC 235, IntC 980, IntC 5]"
    by (simp_all add: demo_merged_store_def demo_merged_def getitem_def)
  from yields_returned[OF compute_yields[OF kv demo_merged_table(3) g]]
  show ?thesis
    by (simp add: demo_group_keys group_values_def agg_first_def)
qed

theorem regional_results_sum_each_region_witness:
  "merged_table (objects demo_merged_store 0) \<and>
   getitem (objects demo_merged_store 0) ''code_reg'' =
     Inr [StrC ''84'', StrC ''94'', StrC ''84'', NaN] \<and>
   getitem (objects demo_merged_store 0) ''name_reg'' =
     Inr [StrC ''Auvergne-Rhone-Alpes'', StrC ''Corse'', StrC ''Auvergne-Rhone-Alpes'', NaN] \<and>
   (\<exists>G. returned (compute_referendum_result_by_regions 0 demo_merged_store) = Inr G \<and>
      index_name G = Some ''code_reg'' \<and> index G = [StrC ''84'', StrC ''94''] \<and>
      getitem G ''name_reg'' = Inr [StrC ''Auvergne-Rhone-Alpes'', StrC ''Corse''] \<and>
      getitem G ''Registered'' = Inr [IntC 3000, IntC 500] \<and>
      getitem G ''Abstentions'' = Inr [IntC 400, IntC 60] \<and>
      getitem G ''Null'' = Inr [IntC 30, IntC 5] \<and>
      getitem G ''Choice A'' = Inr [IntC 1200, IntC 200] \<and>
      getitem G ''Choice B'' = Inr [IntC 1370, IntC 235])"
proof -
  from regional_results_sum_each_region[OF demo_merged_table]
  obtain G where G: "returned (compute_referendum_result_by_regions 0 demo_merged_store) = Inr G"
    and "index_name G = Some ''code_reg''" "set (index G) = {StrC ''84'', StrC ''94''}"
    by auto
  from G have "G = \<lparr>index_name = Some ''code_reg'', index = [StrC ''84'', StrC ''94''],
        columns = [(''name_reg'', [StrC ''Auvergne-Rhone-Alpes'', StrC ''Corse'']),
                   (''Registered'', [IntC 3000, IntC 500]),
                   (''Abstentions'', [IntC 400, IntC 60]),
                   (''Null'', [IntC 30, IntC 5]),
                   (''Choice A'', [IntC 1200, IntC 200]),
                   (''Choice B'', [IntC 1370, IntC 235])]\<rparr>"
    by (simp add: demo_merged_result)
  then have "index_name G = Some ''code_reg'' \<and> index G = [StrC ''84'', StrC ''94''] \<and>
      getitem G ''name_reg'' = Inr [StrC ''Auvergne-Rhone-Alpes'', StrC ''Corse''] \<and>
      getitem G ''Registered'' = Inr [IntC 3000, IntC 500] \<and>
      getitem G ''Abstentions'' = Inr [IntC 400, IntC 60] \<and>
      getitem G ''Null'' = Inr [IntC 30, IntC 5] \<and>
      getitem G ''Choice A'' = Inr [IntC 1200, IntC 200] \<and>
      getitem G ''Choice B'' = Inr [IntC 1370, IntC 235]"
    by (simp add: getitem_def)
  with G demo_merged_table show ?thesis by blast
qed

section \<open>From the merged rows to the regional results\<close>

lemma joined_is_count:
  assumes "list_all is_count c"
  shows "list_all is_count (concat (map (\<lambda>(x, v). replicate (n x) v) (filter P (zip codes c))))"
  using assms by (auto simp: list_all_iff dest: set_zip_rightD)

lemma keep_is_count: "list_all is_count c \<Longrightarrow> list_all is_count (keep m c)"
  using keep_subset[of m c] by (auto simp: list_all_iff)

lemma zip_kept:
  assumes "length c = length xs"
  shows "zip (filter P xs) (keep (map P xs) c) = filter (\<lambda>(x, v). P x) (zip xs c)"
proof -
  have "zip (filter P xs) (keep (map P xs) c) = zip (keep (map P xs) xs) (keep (map P xs) c)"
    using keep_map[of P xs "\<lambda>x. x"] by simp
  also have "\<dots> = keep (map P xs) (zip xs c)"
    by (simp add: keep_zip)
  also have "\<dots> = map snd (filter (\<lambda>(x, y). P x) (zip xs (zip xs c)))"
    by (rule keep_map_fst)
  also have "zip xs (zip xs c) = map (\<lambda>(x, v). (x, (x, v))) (zip xs c)"
    using assms by (intro nth_equalityI) simp_all
  also have "map snd (filter (\<lambda>(x, y). P x) (map (\<lambda>(x, v). (x, (x, v))) (zip xs c))) =
             filter (\<lambda>(x, v). P x) (zip xs c)"
    by (simp add: filter_map comp_def case_prod_unfold)
  finally show ?thesis .
qed

text \<open>Rows without a region are in no group.\<close>

lemma group_keys_present: "group_keys (filter (\<lambda>k. k \<noteq> NaN) ks) = group_keys ks"
  by (simp add: group_keys_def)

lemma group_values_present:
  assumes "length c = length ks" and "k \<noteq> NaN"
  shows "group_values k (filter (\<lambda>k. k \<noteq> NaN) ks) (keep (map (\<lambda>k. k \<noteq> NaN) ks) c) =
         group_values k ks c"
proof -
  have "filter (\<lambda>(k', v). k' = k) (filter (\<lambda>(k', v). k' \<noteq> NaN) (zip ks c)) =
        filter (\<lambda>(k', v). k' = k) (zip ks c)"
    using assms(2) by (auto simp: case_prod_unfold intro: filter_cong)
  then show ?thesis
    by (simp add: group_values_def zip_kept[OF assms(1)])
qed

lemma aggregates_present:
  assumes "length c = length ks"
  shows "map (\<lambda>k. h (group_values k (filter (\<lambda>k. k \<noteq> NaN) ks) (keep (map (\<lambda>k. k \<noteq> NaN) ks) c)))
           (group_keys ks) =
         map (\<lambda>k. h (group_values k ks c)) (group_keys ks)"
  by (rule map_cong[OF refl]) (simp add: group_values_present[OF assms] set_group_keys)

lemma merged_tableD:
  assumes "merged_table f"
  obtains ks nm v1 v2 v3 v4 v5 where
    "key_values f ''code_reg'' = Inr ks" "getitem f ''code_reg'' = Inr ks"
    "getitem f ''name_reg'' = Inr nm"
    "getitem f ''Registered'' = Inr v1" "getitem f ''Abstentions'' = Inr v2"
    "getitem f ''Null'' = Inr v3" "getitem f ''Choice A'' = Inr v4"
    "getitem f ''Choice B'' = Inr v5"
    "list_all is_count v1" "list_all is_count v2" "list_all is_count v3"
    "list_all is_count v4" "list_all is_count v5"
    "length nm = length ks" "length v1 = length ks" "length v2 = length ks"
    "length v3 = length ks" "length v4 = length ks" "length v5 = length ks"
proof -
  from assms have wf: "wf_frame f" and d: "distinct (labels f)" and i: "index_name f = None"
    and cnt: "counts_in f" and l: "''code_reg'' \<in> set (labels f)" "''name_reg'' \<in> set (labels f)"
    by (simp_all add: merged_table_def)
  from l obtain ks nm where ks: "getitem f ''code_reg'' = Inr ks"
    and nm: "getitem f ''name_reg'' = Inr nm"
    using labels_getitem by blast
  from cnt obtain v1 v2 v3 v4 v5 where
    g: "getitem f ''Registered'' = Inr v1" "getitem f ''Abstentions'' = Inr v2"
    "getitem f ''Null'' = Inr v3" "getitem f ''Choice A'' = Inr v4"
    "getitem f ''Choice B'' = Inr v5"
    and c: "list_all is_count v1" "list_all is_count v2" "list_all is_count v3"
    "list_all is_count v4" "list_all is_count v5"
    by (rule counts_inD)
  have kv: "key_values f ''code_reg'' = Inr ks"
    by (rule key_values_getitem[OF d _ ks]) (simp add: i)
  note len = getitem_length[OF wf]
  show thesis
    by (rule that[OF kv ks nm g c]) (simp_all add: len[OF ks] len[OF nm] len[OF g(1)] len[OF g(2)]
        len[OF g(3)] len[OF g(4)] len[OF g(5)])
qed

lemma compute_without_null_regions:
  assumes "merged_table f" and "getitem f ''code_reg'' = Inr ks"
  shows "groupby_agg (filter_rows f (map (\<lambda>k. k \<noteq> NaN) ks)) ''code_reg''
       [(''name_reg'', ''name_reg'', First),
        (''Registered'', ''Registered'', Sum),
        (''Abstentions'', ''Abstentions'', Sum),
        (''Null'', ''Null'', Sum),
        (''Choice A'', ''Choice A'', Sum),
        (''Choice B'', ''Choice B'', Sum)] =
     groupby_agg f ''code_reg''
       [(''name_reg'', ''name_reg'', First),
        (''Registered'', ''Registered'', Sum),
        (''Abstentions'', ''Abstentions'', Sum),
        (''Null'', ''Null'', Sum),
        (''Choice A'', ''Choice A'', Sum),
        (''Choice B'', ''Choice B'', Sum)]"
proof -
  let ?m = "map (\<lambda>k. k \<noteq> NaN) ks"
  let ?f' = "filter_rows f ?m"
  from assms(1) obtain ks' nm v1 v2 v3 v4 v5 where
    kv: "key_values f ''code_reg'' = Inr ks'" and ks': "getitem f ''code_reg'' = Inr ks'"
    and nm: "getitem f ''name_reg'' = Inr nm"
    and g: "getitem f ''Registered'' = Inr v1" "getitem f ''Abstentions'' = Inr v2"
    "getitem f ''Null'' = Inr v3" "getitem f ''Choice A'' = Inr v4"
    "getitem f ''Choice B'' = Inr v5"
    and c: "list_all is_count v1" "list_all is_count v2" "list_all is_count v3"
    "list_all is_count v4" "list_all is_count v5"
    and len: "length nm = length ks'" "length v1 = length ks'" "length v2 = length ks'"
    "length v3 = length ks'" "length v4 = length ks'" "length v5 = length ks'"
    by (rule merged_tableD)
  from ks' assms(2) have e: "ks' = ks" by simp
  note kv = kv[unfolded e] and len = len[unfolded e]
  from assms(1) have d: "distinct (labels f)" and i: "index_name f = None"
    by (simp_all add: merged_table_def)
  have kv': "key_values ?f' ''code_reg'' = Inr (filter (\<lambda>k. k \<noteq> NaN) ks)"
  proof -
    have "key_values ?f' ''code_reg'' = Inr (keep ?m ks)"
    proof (rule key_values_getitem)
      show "distinct (labels ?f')" by (simp add: labels_filter_rows d)
      show "index_name ?f' \<noteq> Some ''code_reg''" by (simp add: index_name_filter_rows i)
      show "getitem ?f' ''code_reg'' = Inr (keep ?m ks)"
        by (rule getitem_filter_rows[OF assms(2)])
    qed
    then show ?thesis using keep_map[of "\<lambda>k. k \<noteq> NaN" ks "\<lambda>x. x"] by simp
  qed
  note g' = g[THEN getitem_filter_rows, of ?m]
  note c' = c[THEN keep_is_count, of ?m]
  show ?thesis
    unfolding compute_result[OF kv nm g c]
      compute_result[OF kv' getitem_filter_rows[OF nm] g' c']
    by (simp add: group_keys_present aggregates_present len group_values_present set_group_keys)
qed

lemma counts_in_col:
  assumes "counts_in f" "l \<in> set count_columns"
  obtains c where "getitem f l = Inr c" "list_all is_count c"
proof -
  from assms have "case getitem f l of Inl e \<Rightarrow> False | Inr c \<Rightarrow> list_all is_count c"
    unfolding counts_in_def list_all_iff by blast
  then show thesis using that by (cases "getitem f l") auto
qed

lemma count_column_labels:
  "l \<in> set count_columns \<Longrightarrow> l \<noteq> ''code_dep'' \<and> l \<noteq> ''name_dep''"
  by (auto simp: count_columns_def)

lemma mra_merged:
  fixes s :: store
  assumes live: "d < fresh s"
    and R: "referendum_table (objects s r)" and cnt: "counts_in (objects s r)"
    and A: "area_table (objects s d)"
    and c1: "getitem (objects s r) ''Department code'' = Inr c1"
    and ac: "getitem (objects s d) ''code_dep'' = Inr ac"
    and creg: "getitem (objects s d) ''code_reg'' = Inr creg"
  obtains F where
    "yields (merge_referendum_and_areas r d) s F" "merged_table F"
    "getitem F ''code_reg'' =
       Inr (concat (map (\<lambda>x. case map snd (filter (\<lambda>(y, r). norm_code y = norm_code x) (zip ac creg)) of
                                [] \<Rightarrow> [NaN] | rs \<Rightarrow> rs)
                      (filter (\<lambda>x. \<not> overseas x) c1)))"
    "\<And>l c. l \<in> set count_columns \<Longrightarrow> getitem (objects s r) l = Inr c \<Longrightarrow>
       getitem F l =
         Inr (concat (map (\<lambda>(x, v). replicate
                             (max 1 (length (filter (\<lambda>y. norm_code y = norm_code x) ac))) v)
                        (filter (\<lambda>(x, v). \<not> overseas x) (zip c1 c))))"
proof (rule mra_table[OF live R A c1 ac])
  let ?msk = "map (\<lambda>x. \<not> overseas x) c1"
  let ?J = "\<lambda>c. concat (map (\<lambda>(x, v). replicate
                             (max 1 (length (filter (\<lambda>y. norm_code y = norm_code x) ac))) v)
                        (filter (\<lambda>(x, v). \<not> overseas x) (zip c1 c)))"
  fix F creg'
  assume y: "yields (merge_referendum_and_areas r d) s F"
    and cr0: "getitem (objects s d) ''code_reg'' = Inr creg'"
    and iF: "index_name F = None" and wfF: "wf_frame F"
    and lab: "labels F = labels (objects s r) @
       filter (\<lambda>l. l \<notin> set (labels (objects s r))) [''code_dep'', ''name_dep''] @
       [''code_reg'', ''name_reg'']"
    and dF: "distinct (labels F)"
    and cr: "getitem F ''code_reg'' = Inr (take_right (join_rows c1 ac) creg')"
    and other: "\<And>l c. l \<noteq> ''code_dep'' \<Longrightarrow> l \<noteq> ''name_dep'' \<Longrightarrow>
       getitem (objects s r) l = Inr c \<Longrightarrow>
       getitem F l = Inr (take_left (join_rows c1 ac) (keep ?msk c))"
  from cr0 creg have e: "creg' = creg" by simp
  from R have wf: "wf_frame (objects s r)" by (simp add: referendum_table_def)
  from A have wfA: "wf_frame (objects s d)" by (simp add: area_table_def)
  have lenA: "length creg = length ac"
    using getitem_length[OF wfA ac] getitem_length[OF wfA creg] by simp
  have col: "getitem F l = Inr (?J c)"
    if "l \<in> set count_columns" "getitem (objects s r) l = Inr c" for l c
  proof -
    have len: "length c = length c1"
      using getitem_length[OF wf c1] getitem_length[OF wf that(2)] by simp
    from count_column_labels[OF that(1)] have "l \<noteq> ''code_dep''" "l \<noteq> ''name_dep''" by simp_all
    from other[OF this that(2)] show ?thesis by (simp only: joined_left[OF len])
  qed
  have "\<forall>l\<in>set count_columns. case getitem F l of Inl e \<Rightarrow> False | Inr c \<Rightarrow> list_all is_count c"
  proof
    fix l assume l: "l \<in> set count_columns"
    from counts_in_col[OF cnt l] obtain c where c: "getitem (objects s r) l = Inr c"
      "list_all is_count c" .
    from col[OF l c(1)] joined_is_count[OF c(2)]
    show "case getitem F l of Inl e \<Rightarrow> False | Inr c \<Rightarrow> list_all is_count c" by simp
  qed
  then have cF: "counts_in F"
    by (simp add: counts_in_def list_all_iff)
  have mt: "merged_table F"
    unfolding merged_table_def using wfF dF iF cF by (simp add: lab)
  have cr': "getitem F ''code_reg'' =
       Inr (concat (map (\<lambda>x. case map snd (filter (\<lambda>(y, r). norm_code y = norm_code x) (zip ac creg)) of
                                [] \<Rightarrow> [NaN] | rs \<Rightarrow> rs)
                      (filter (\<lambda>x. \<not> overseas x) c1)))"
    using cr unfolding e by (simp only: joined_right[OF lenA])
  show thesis by (rule that[OF y mt cr']) (rule col)
qed

lemma returned_seq_compute:
  assumes "yields m s F"
  shows "returned (seq m compute_referendum_result_by_regions s) =
     groupby_agg F ''code_reg''
       [(''name_reg'', ''name_reg'', First),
        (''Registered'', ''Registered'', Sum),
        (''Abstentions'', ''Abstentions'', Sum),
        (''Null'', ''Null'', Sum),
        (''Choice A'', ''Choice A'', Sum),
        (''Choice B'', ''Choice B'', Sum)]"
proof -
  from assms obtain x s' where m: "m s = (Inr x, s')" and F: "objects s' x = F"
    by (auto simp: yields_def)
  have "seq m compute_referendum_result_by_regions s = compute_referendum_result_by_regions x s'"
    by (simp add: seq_def m)
  then show ?thesis by (simp add: returned_compute F)
qed

text \<open>
  C10. A referendum row whose department code is the code of no area row leaves the
  referendum merger with a missing region code, and the aggregation leaves it out. Both
  tables are given exactly: the region codes of the merged rows (missing where no area row
  has the padded code), the columns of counts of the merged rows, and the regional results,
  whose keys are the region codes that are not missing and whose totals are the sums over
  the merged rows of the region. Taking the rows with a missing region code out of the
  merged table changes nothing in the results.
\<close>

theorem rows_without_a_region_are_left_out:
  fixes s :: store
  assumes "areas < fresh s"
    and "referendum_table (objects s referendum)" and "counts_in (objects s referendum)"
    and "area_table (objects s areas)"
    and "getitem (objects s referendum) ''Department code'' = Inr codes"
    and "getitem (objects s areas) ''code_dep'' = Inr area_codes"
    and "getitem (objects s areas) ''code_reg'' = Inr area_regions"
  shows "\<exists>F G regions.
     returned (merge_referendum_and_areas referendum areas s) = Inr F \<and>
     returned (seq (merge_referendum_and_areas referendum areas)
                 compute_referendum_result_by_regions s) = Inr G \<and>
     getitem F ''code_reg'' = Inr regions \<and>
     regions =
       concat (map (\<lambda>x. case map snd (filter (\<lambda>(y, r). norm_code y = norm_code x)
                                          (zip area_codes area_regions)) of
                           [] \<Rightarrow> [NaN]
                         | rs \<Rightarrow> rs)
                 (filter (\<lambda>x. \<not> overseas x) codes)) \<and>
     index_name G = Some ''code_reg'' \<and> distinct (index G) \<and>
     set (index G) = set regions - {NaN} \<and>
     (\<forall>l\<in>set count_columns. \<exists>c vs tot.
         getitem (objects s referendum) l = Inr c \<and> getitem F l = Inr vs \<and>
         vs = concat (map (\<lambda>(x, v). replicate
                             (max 1 (length (filter (\<lambda>y. norm_code y = norm_code x) area_codes))) v)
                        (filter (\<lambda>(x, v). \<not> overseas x) (zip codes c))) \<and>
         getitem G l = Inr tot \<and> length tot = nrows G \<and>
         (\<forall>p<nrows G. tot ! p =
            IntC (\<Sum>i\<in>{i. i < length regions \<and> regions ! i = index G ! p}. int_of (vs ! i)))) \<and>
     (\<forall>t a. objects t a = filter_rows F (map (\<lambda>r. r \<noteq> NaN) regions) \<longrightarrow>
        returned (compute_referendum_result_by_regions a t) = Inr G)"
proof (rule mra_merged[OF assms])
  let ?regions = "concat (map (\<lambda>x. case map snd (filter (\<lambda>(y, r). norm_code y = norm_code x)
                                          (zip area_codes area_regions)) of
                           [] \<Rightarrow> [NaN]
                         | rs \<Rightarrow> rs)
                 (filter (\<lambda>x. \<not> overseas x) codes))"
  let ?J = "\<lambda>c. concat (map (\<lambda>(x, v). replicate
                             (max 1 (length (filter (\<lambda>y. norm_code y = norm_code x) area_codes))) v)
                        (filter (\<lambda>(x, v). \<not> overseas x) (zip codes c)))"
  fix F
  assume y: "yields (merge_referendum_and_areas referendum areas) s F"
    and mt: "merged_table F"
    and cr: "getitem F ''code_reg'' = Inr ?regions"
    and col: "\<And>l c. l \<in> set count_columns \<Longrightarrow> getitem (objects s referendum) l = Inr c \<Longrightarrow>
       getitem F l = Inr (?J c)"
  from mt obtain nm where nm: "getitem F ''name_reg'' = Inr nm"
    by (rule merged_tableD)
  from regional_totals[OF mt cr nm] obtain G where
    G: "groupby_agg F ''code_reg''
       [(''name_reg'', ''name_reg'', First),
        (''Registered'', ''Registered'', Sum),
        (''Abstentions'', ''Abstentions'', Sum),
        (''Null'', ''Null'', Sum),
        (''Choice A'', ''Choice A'', Sum),
        (''Choice B'', ''Choice B'', Sum)] = Inr G"
    and iG: "index_name G = Some ''code_reg''" "distinct (index G)"
      "set (index G) = set ?regions - {NaN}"
    and tot: "\<forall>l\<in>set count_columns. \<exists>vs tot.
         getitem F l = Inr vs \<and> getitem G l = Inr tot \<and> length tot = nrows G \<and>
         (\<forall>p<nrows G. tot ! p =
            IntC (\<Sum>i\<in>{i. i < length ?regions \<and> ?regions ! i = index G ! p}. int_of (vs ! i)))"
    by blast
  have totals: "\<forall>l\<in>set count_columns. \<exists>c vs tot.
         getitem (objects s referendum) l = Inr c \<and> getitem F l = Inr vs \<and> vs = ?J c \<and>
         getitem G l = Inr tot \<and> length tot = nrows G \<and>
         (\<forall>p<nrows G. tot ! p =
            IntC (\<Sum>i\<in>{i. i < length ?regions \<and> ?regions ! i = index G ! p}. int_of (vs ! i)))"
  proof
    fix l assume l: "l \<in> set count_columns"
    from counts_in_col[OF assms(3) l] obtain c where c: "getitem (objects s referendum) l = Inr c"
      by blast
    from tot l obtain vs tot where t: "getitem F l = Inr vs" "getitem G l = Inr tot"
      "length tot = nrows G"
      "\<forall>p<nrows G. tot ! p =
            IntC (\<Sum>i\<in>{i. i < length ?regions \<and> ?regions ! i = index G ! p}. int_of (vs ! i))"
      by blast
    from col[OF l c] t(1) have "vs = ?J c" by simp
    with c t show "\<exists>c vs tot.
         getitem (objects s referendum) l = Inr c \<and> getitem F l = Inr vs \<and> vs = ?J c \<and>
         getitem G l = Inr tot \<and> length tot = nrows G \<and>
         (\<forall>p<nrows G. tot ! p =
            IntC (\<Sum>i\<in>{i. i < length ?regions \<and> ?regions ! i = index G ! p}. int_of (vs ! i)))"
      by blast
  qed
  have without: "\<forall>t a. objects t a = filter_rows F (map (\<lambda>r. r \<noteq> NaN) ?regions) \<longrightarrow>
        returned (compute_referendum_result_by_regions a t) = Inr G"
    by (simp add: returned_compute compute_without_null_regions[OF mt cr] G)
  have pipe: "returned (seq (merge_referendum_and_areas referendum areas)
                 compute_referendum_result_by_regions s) = Inr G"
    by (simp only: returned_seq_compute[OF y] G)
  show ?thesis
    by (intro exI[of _ F] exI[of _ G] exI[of _ ?regions] conjI yields_returned[OF y] pipe cr
        refl iG totals without)
qed

text \<open>The merged rows and the regional results of given tables, column by column.\<close>

lemma pipeline_result:
  fixes s :: store
  assumes live: "d < fresh s"
    and R: "referendum_table (objects s r)" and A: "area_table (objects s d)"
    and c1: "getitem (objects s r) ''Department code'' = Inr c1"
    and ac: "getitem (objects s d) ''code_dep'' = Inr ac"
    and creg: "getitem (objects s d) ''code_reg'' = Inr creg"
    and nreg: "getitem (objects s d) ''name_reg'' = Inr nreg"
    and g: "getitem (objects s r) ''Registered'' = Inr v1"
      "getitem (objects s r) ''Abstentions'' = Inr v2"
      "getitem (objects s r) ''Null'' = Inr v3" "getitem (objects s r) ''Choice A'' = Inr v4"
      "getitem (objects s r) ''Choice B'' = Inr v5"
    and c: "list_all is_count v1" "list_all is_count v2" "list_all is_count v3"
      "list_all is_count v4" "list_all is_count v5"
    and J: "J = (\<lambda>c. concat (map (\<lambda>(x, v). replicate
                             (max 1 (length (filter (\<lambda>y. norm_code y = norm_code x) ac))) v)
                        (filter (\<lambda>(x, v). \<not> overseas x) (zip c1 c))))"
    and K: "K = (\<lambda>c. concat (map (\<lambda>x. case map snd (filter (\<lambda>(y, r). norm_code y = norm_code x) (zip ac c)) of
                                [] \<Rightarrow> [NaN] | rs \<Rightarrow> rs)
                      (filter (\<lambda>x. \<not> overseas x) c1)))"
  shows "\<exists>F. returned (merge_referendum_and_areas r d s) = Inr F \<and>
     getitem F ''code_reg'' = Inr (K creg) \<and> getitem F ''name_reg'' = Inr (K nreg) \<and>
     getitem F ''Registered'' = Inr (J v1) \<and> getitem F ''Abstentions'' = Inr (J v2) \<and>
     getitem F ''Null'' = Inr (J v3) \<and> getitem F ''Choice A'' = Inr (J v4) \<and>
     getitem F ''Choice B'' = Inr (J v5) \<and>
     returned (seq (merge_referendum_and_areas r d) compute_referendum_result_by_regions s) =
       Inr \<lparr>index_name = Some ''code_reg'', index = group_keys (K creg),
          columns =
            [(''name_reg'', map (\<lambda>k. agg_first (group_values k (K creg) (K nreg))) (group_keys (K creg))),
             (''Registered'', map (\<lambda>k. IntC (sum_list (map int_of (group_values k (K creg) (J v1))))) (group_keys (K creg))),
             (''Abstentions'', map (\<lambda>k. IntC (sum_list (map int_of (group_values k (K creg) (J v2))))) (group_keys (K creg))),
             (''Null'', map (\<lambda>k. IntC (sum_list (map int_of (group_values k (K creg) (J v3))))) (group_keys (K creg))),
             (''Choice A'', map (\<lambda>k. IntC (sum_list (map int_of (group_values k (K creg) (J v4))))) (group_keys (K creg))),
             (''Choice B'', map (\<lambda>k. IntC (sum_list (map int_of (group_values k (K creg) (J v5))))) (group_keys (K creg)))]\<rparr>"
proof (rule mra_table[OF live R A c1 ac])
  let ?msk = "map (\<lambda>x. \<not> overseas x) c1"
  fix F creg' nreg'
  assume y: "yields (merge_referendum_and_areas r d) s F"
    and cr0: "getitem (objects s d) ''code_reg'' = Inr creg'"
    and nr0: "getitem (objects s d) ''name_reg'' = Inr nreg'"
    and iF: "index_name F = None"
    and dF: "distinct (labels F)"
    and cr: "getitem F ''code_reg'' = Inr (take_right (join_rows c1 ac) creg')"
    and nr: "getitem F ''name_reg'' = Inr (take_right (join_rows c1 ac) nreg')"
    and other: "\<And>l c. l \<noteq> ''code_dep'' \<Longrightarrow> l \<noteq> ''name_dep'' \<Longrightarrow>
       getitem (objects s r) l = Inr c \<Longrightarrow>
       getitem F l = Inr (take_left (join_rows c1 ac) (keep ?msk c))"
  from cr0 creg nr0 nreg have e: "creg' = creg" "nreg' = nreg" by simp_all
  from R have wf: "wf_frame (objects s r)" by (simp add: referendum_table_def)
  from A have wfA: "wf_frame (objects s d)" by (simp add: area_table_def)
  have lenA: "length creg = length ac" "length nreg = length ac"
    using getitem_length[OF wfA ac] getitem_length[OF wfA creg] getitem_length[OF wfA nreg]
    by simp_all
  have col: "getitem F l = Inr (J c)"
    if "l \<noteq> ''code_dep''" "l \<noteq> ''name_dep''" "getitem (objects s r) l = Inr c" for l c
  proof -
    have len: "length c = length c1"
      using getitem_length[OF wf c1] getitem_length[OF wf that(3)] by simp
    from other[OF that] show ?thesis unfolding J by (simp only: joined_left[OF len])
  qed
  have cr': "getitem F ''code_reg'' = Inr (K creg)"
    using cr unfolding e K by (simp only: joined_right[OF lenA(1)])
  have nr': "getitem F ''name_reg'' = Inr (K nreg)"
    using nr unfolding e K by (simp only: joined_right[OF lenA(2)])
  have kv: "key_values F ''code_reg'' = Inr (K creg)"
    by (rule key_values_getitem[OF dF _ cr']) (simp add: iF)
  have g': "getitem F ''Registered'' = Inr (J v1)" "getitem F ''Abstentions'' = Inr (J v2)"
    "getitem F ''Null'' = Inr (J v3)" "getitem F ''Choice A'' = Inr (J v4)"
    "getitem F ''Choice B'' = Inr (J v5)"
    by (rule col[OF _ _ g(1)], simp, simp, rule col[OF _ _ g(2)], simp, simp,
        rule col[OF _ _ g(3)], simp, simp, rule col[OF _ _ g(4)], simp, simp,
        rule col[OF _ _ g(5)], simp, simp)
  have c': "list_all is_count (J v1)" "list_all is_count (J v2)" "list_all is_count (J v3)"
    "list_all is_count (J v4)" "list_all is_count (J v5)"
    unfolding J by (intro joined_is_count c)+
  show ?thesis
    by (intro exI[of _ F] conjI yields_returned[OF y] cr' nr' g')
      (simp only: returned_seq_compute[OF y] compute_result[OF kv nr' g' c'])
qed

lemma demo_counts:
  "counts_in (objects demo_store 0)"
  "getitem (objects demo_store 1) ''name_reg'' = Inr [StrC ''Auvergne-Rhone-Alpes'', StrC ''Corse'']"
  "getitem (objects demo_store 0) ''Registered'' = Inr [IntC 1000, IntC 2000, IntC 500, IntC 10]"
  "getitem (objects demo_store 0) ''Abstentions'' = Inr [IntC 100, IntC 300, IntC 60, IntC 1]"
  "getitem (objects demo_store 0) ''Null'' = Inr [IntC 10, IntC 20, IntC 5, IntC 0]"
  "getitem (objects demo_store 0) ''Choice A'' = Inr [IntC 500, IntC 700, IntC 200, IntC 4]"
  "getitem (objects demo_store 0) ''Choice B'' = Inr [IntC 390, IntC 980, IntC 235, IntC 5]"
  by (simp_all add: demo_store_def demo_referendum_def demo_areas_def counts_in_def
      count_columns_def getitem_def)

lemma demo_pipeline:
  "\<exists>F. returned (merge_referendum_and_areas 0 1 demo_store) = Inr F \<and>
     getitem F ''code_reg'' = Inr [StrC ''84'', StrC ''94'', NaN] \<and>
     getitem F ''name_reg'' = Inr [StrC ''Auvergne-Rhone-Alpes'', StrC ''Corse'', NaN] \<and>
     getitem F ''Registered'' = Inr [IntC 1000, IntC 2000, IntC 10] \<and>
     getitem F ''Abstentions'' = Inr [IntC 100, IntC 300, IntC 1] \<and>
     getitem F ''Null'' = Inr [IntC 10, IntC 20, IntC 0] \<and>
     getitem F ''Choice A'' = Inr [IntC 500, IntC 700, IntC 4] \<and>
     getitem F ''Choice B'' = Inr [IntC 390, IntC 980, IntC 5] \<and>
     returned (seq (merge_referendum_and_areas 0 1) compute_referendum_result_by_regions demo_store) =
       Inr \<lparr>index_name = Some ''code_reg'', index = [StrC ''84'', StrC ''94''],
          columns =
            [(''name_reg'', [StrC ''Auvergne-Rhone-Alpes'', StrC ''Corse'']),
             (''Registered'', [IntC 1000, IntC 2000]),
             (''Abstentions'', [IntC 100, IntC 300]),
             (''Null'', [IntC 10, IntC 20]),
             (''Choice A'', [IntC 500, IntC 700]),
             (''Choice B'', [IntC 390, IntC 980])]\<rparr>"
proof -
  have gk: "group_keys [StrC ''84'', StrC ''94'', NaN] = [StrC ''84'', StrC ''94'']"
    by (simp add: group_keys_def cell_key_le)
  have ic: "list_all is_count [IntC 1000, IntC 2000, IntC 500, IntC 10]"
    "list_all is_count [IntC 100, IntC 300, IntC 60, IntC 1]"
    "list_all is_count [IntC 10, IntC 20, IntC 5, IntC 0]"
    "list_all is_count [IntC 500, IntC 700, IntC 200, IntC 4]"
    "list_all is_count [IntC 390, IntC 980, IntC 235, IntC 5]"
    by simp_all
  from pipeline_result[OF demo_tables(7,1,2,3,4,6) demo_counts(2-7) ic refl refl]
  show ?thesis
    by (simp add: demo_overseas norm_code_simps gk group_values_def agg_first_def)
qed

theorem rows_without_a_region_are_left_out_witness:
  "1 < fresh demo_store \<and> referendum_table (objects demo_store 0) \<and>
   counts_in (objects demo_store 0) \<and> area_table (objects demo_store 1) \<and>
   getitem (objects demo_store 0) ''Department code'' =
     Inr [IntC 1, StrC ''2A'', StrC ''ZA'', StrC ''99''] \<and>
   getitem (objects demo_store 1) ''code_dep'' = Inr [StrC ''01'', StrC ''2A''] \<and>
   (\<exists>F G. returned (merge_referendum_and_areas 0 1 demo_store) = Inr F \<and>
      returned (seq (merge_referendum_and_areas 0 1) compute_referendum_result_by_regions
                  demo_store) = Inr G \<and>
      getitem F ''code_reg'' = Inr [StrC ''84'', StrC ''94'', NaN] \<and>
      getitem F ''Registered'' = Inr [IntC 1000, IntC 2000, IntC 10] \<and>
      getitem F ''Choice A'' = Inr [IntC 500, IntC 700, IntC 4] \<and>
      index G = [StrC ''84'', StrC ''94''] \<and>
      getitem G ''Registered'' = Inr [IntC 1000, IntC 2000] \<and>
      getitem G ''Choice A'' = Inr [IntC 500, IntC 700] \<and>
      getitem G ''Choice B'' = Inr [IntC 390, IntC 980])"
proof -
  from rows_without_a_region_are_left_out[OF demo_tables(7,1) demo_counts(1) demo_tables(2,3,4,6)]
  obtain F G where F: "returned (merge_referendum_and_areas 0 1 demo_store) = Inr F"
    and G: "returned (seq (merge_referendum_and_areas 0 1) compute_referendum_result_by_regions
                  demo_store) = Inr G"
    by blast
  from demo_pipeline F G have
    "getitem F ''code_reg'' = Inr [StrC ''84'', StrC ''94'', NaN] \<and>
      getitem F ''Registered'' = Inr [IntC 1000, IntC 2000, IntC 10] \<and>
      getitem F ''Choice A'' = Inr [IntC 500, IntC 700, IntC 4] \<and>
      index G = [StrC ''84'', StrC ''94''] \<and>
      getitem G ''Registered'' = Inr [IntC 1000, IntC 2000] \<and>
      getitem G ''Choice A'' = Inr [IntC 500, IntC 700] \<and>
      getitem G ''Choice B'' = Inr [IntC 390, IntC 980]"
    by (auto simp: getitem_def)
  with F G demo_tables demo_counts(1) show ?thesis by blast
qed

end
